theory Spec2Isabelle
  imports Complex_Main
begin

text \<open>
  A traffic recorder: two capture hooks called by an intercepting proxy write one row per
  request/response exchange into the SQLite table \<open>requests\<close>; an analysis agent,
  an HTTP API and a command-line tool read the table. The theory embeds the Python of
  \<^verbatim>\<open>proxy_server.py\<close>, \<^verbatim>\<open>copilot_agent.py\<close>,
  \<^verbatim>\<open>copilot_api.py\<close> and \<^verbatim>\<open>bin/traffic_analyzer.py\<close>
  and proves what these functions do with a row.

  Exceptions are values of type \<open>error\<close>, a function that may raise returns
  \<open>error + 'a\<close>. The table is a value of type \<open>db\<close>; a function that
  writes returns the new table. Every function body runs against one snapshot of the table:
  no other connection writes between its statements.
\<close>

section \<open>Text\<close>

text \<open>
  A \<^verbatim>\<open>bytes\<close> object is a list of 8-bit values, here \<open>char\<close>.
  A \<^verbatim>\<open>str\<close> is represented by its UTF-8 encoding, the form in which
  SQLite keeps a TEXT column, so a string literal of the source is the same literal here.
  Substring tests on well-formed UTF-8 agree with the tests on code points.

  \<open>lower\<close> and \<open>upper\<close> are \<^verbatim>\<open>str.lower\<close> and
  \<^verbatim>\<open>str.upper\<close> as far as ASCII goes: the ASCII letters change case, and
  the letters outside ASCII whose mapping contains an ASCII letter are replaced by that
  mapping (\<open>lower_special\<close>: U+0130 and the Kelvin sign U+212A;
  \<open>upper_special\<close>: U+00DF, U+0131, U+0149, U+017F, U+01F0, U+1E96 to U+1E9A and
  the ligatures U+FB00 to U+FB06; the tables list every such code point of Unicode 14).
  Any other letter outside ASCII is left as it is, where Python replaces it by a letter that
  is outside ASCII too: the source compares the results with ASCII patterns only, which
  cannot tell the two apart.
\<close>

type_synonym bytes = "char list"

definition byte :: "char \<Rightarrow> nat" where
  "byte c = of_char c"

fun startswith :: "string \<Rightarrow> string \<Rightarrow> bool" where
  "startswith s [] = True"
| "startswith [] (p # ps) = False"
| "startswith (c # cs) (p # ps) = (c = p \<and> startswith cs ps)"

fun str_in :: "string \<Rightarrow> string \<Rightarrow> bool" where
  "str_in p [] = (p = [])"
| "str_in p (c # cs) = (startswith (c # cs) p \<or> str_in p cs)"

definition lower_char :: "char \<Rightarrow> char" where
  "lower_char c =
     (case map_of (zip ''ABCDEFGHIJKLMNOPQRSTUVWXYZ'' ''abcdefghijklmnopqrstuvwxyz'') c of
        Some d \<Rightarrow> d | None \<Rightarrow> c)"

definition upper_char :: "char \<Rightarrow> char" where
  "upper_char c =
     (case map_of (zip ''abcdefghijklmnopqrstuvwxyz'' ''ABCDEFGHIJKLMNOPQRSTUVWXYZ'') c of
        Some d \<Rightarrow> d | None \<Rightarrow> c)"

definition lower_special :: "(string \<times> string) list" where
  "lower_special =
     [([CHR 0xC4, CHR 0xB0], [CHR ''i'', CHR 0xCC, CHR 0x87]),
      ([CHR 0xE2, CHR 0x84, CHR 0xAA], [CHR ''k''])]"

definition upper_special :: "(string \<times> string) list" where
  "upper_special =
     [([CHR 0xC3, CHR 0x9F], [CHR ''S'', CHR ''S'']),
      ([CHR 0xC4, CHR 0xB1], [CHR ''I'']),
      ([CHR 0xC5, CHR 0x89], [CHR 0xCA, CHR 0xBC, CHR ''N'']),
      ([CHR 0xC5, CHR 0xBF], [CHR ''S'']),
      ([CHR 0xC7, CHR 0xB0], [CHR ''J'', CHR 0xCC, CHR 0x8C]),
      ([CHR 0xE1, CHR 0xBA, CHR 0x96], [CHR ''H'', CHR 0xCC, CHR 0xB1]),
      ([CHR 0xE1, CHR 0xBA, CHR 0x97], [CHR ''T'', CHR 0xCC, CHR 0x88]),
      ([CHR 0xE1, CHR 0xBA, CHR 0x98], [CHR ''W'', CHR 0xCC, CHR 0x8A]),
      ([CHR 0xE1, CHR 0xBA, CHR 0x99], [CHR ''Y'', CHR 0xCC, CHR 0x8A]),
      ([CHR 0xE1, CHR 0xBA, CHR 0x9A], [CHR ''A'', CHR 0xCA, CHR 0xBE]),
      ([CHR 0xEF, CHR 0xAC, CHR 0x80], [CHR ''F'', CHR ''F'']),
      ([CHR 0xEF, CHR 0xAC, CHR 0x81], [CHR ''F'', CHR ''I'']),
      ([CHR 0xEF, CHR 0xAC, CHR 0x82], [CHR ''F'', CHR ''L'']),
      ([CHR 0xEF, CHR 0xAC, CHR 0x83], [CHR ''F'', CHR ''F'', CHR ''I'']),
      ([CHR 0xEF, CHR 0xAC, CHR 0x84], [CHR ''F'', CHR ''F'', CHR ''L'']),
      ([CHR 0xEF, CHR 0xAC, CHR 0x85], [CHR ''S'', CHR ''T'']),
      ([CHR 0xEF, CHR 0xAC, CHR 0x86], [CHR ''S'', CHR ''T''])]"

fun case_map :: "(string \<times> string) list \<Rightarrow> (char \<Rightarrow> char) \<Rightarrow> string \<Rightarrow> string" where
  "case_map special f [] = []"
| "case_map special f (c # s) =
     (case find (\<lambda>(p, q). startswith (c # s) p) special of
        Some (p, q) \<Rightarrow> q @ case_map special f (drop (length p - 1) s)
      | None \<Rightarrow> f c # case_map special f s)"

definition lower :: "string \<Rightarrow> string" where
  "lower s = case_map lower_special lower_char s"

definition upper :: "string \<Rightarrow> string" where
  "upper s = case_map upper_special upper_char s"

text \<open>
  \<^verbatim>\<open>content.decode('utf-8', errors='ignore')\<close>. \<open>utf8_next c s\<close> looks at
  the sequence that starts with the byte \<open>c\<close> followed by \<open>s\<close> and returns how
  many bytes the decoder consumes there and whether they decode to a character. On an error
  the interpreter's decoder reports the lead byte together with the continuation bytes it had
  accepted (one byte for an invalid lead byte, everything left for a sequence that the end
  of the input cuts off), and the handler \<^verbatim>\<open>ignore\<close> resumes behind them.
  \<open>utf8_ignore\<close> is the decoded text: the accepted sequences, in order.
\<close>

definition tail_byte :: "char \<Rightarrow> bool" where
  "tail_byte c = (0x80 \<le> byte c \<and> byte c \<le> 0xBF)"

definition utf8_next :: "char \<Rightarrow> bytes \<Rightarrow> nat \<times> bool" where
  "utf8_next c s =
     (if byte c < 0x80 then (1, True)
      else if byte c < 0xC2 then (1, False)
      else if byte c < 0xE0 then
        (case s of
           [] \<Rightarrow> (1, False)
         | c2 # s2 \<Rightarrow> if tail_byte c2 then (2, True) else (1, False))
      else if byte c < 0xF0 then
        (case s of
           [] \<Rightarrow> (1, False)
         | c2 # s2 \<Rightarrow>
             if \<not> tail_byte c2 then (1, False)
             else if (if byte c2 < 0xA0 then byte c = 0xE0 else byte c = 0xED) then (1, False)
             else (case s2 of
                     [] \<Rightarrow> (2, False)
                   | c3 # s3 \<Rightarrow> if tail_byte c3 then (3, True) else (2, False)))
      else if byte c < 0xF5 then
        (case s of
           [] \<Rightarrow> (1, False)
         | c2 # s2 \<Rightarrow>
             if \<not> tail_byte c2 then (1, False)
             else if (if byte c2 < 0x90 then byte c = 0xF0 else byte c = 0xF4) then (1, False)
             else (case s2 of
                     [] \<Rightarrow> (2, False)
                   | c3 # s3 \<Rightarrow>
                       if \<not> tail_byte c3 then (2, False)
                       else (case s3 of
                               [] \<Rightarrow> (3, False)
                             | c4 # s4 \<Rightarrow> if tail_byte c4 then (4, True) else (3, False))))
      else (1, False))"

text \<open>
  Well-formed UTF-8 as the Unicode standard tabulates it (Table 3-7): the reference against
  which the decoder is compared.
\<close>

fun well_formed_utf8 :: "bytes \<Rightarrow> bool" where
  "well_formed_utf8 [] = True"
| "well_formed_utf8 (c # s) =
     (if byte c \<le> 0x7F then well_formed_utf8 s
      else if 0xC2 \<le> byte c \<and> byte c \<le> 0xDF then
        (case s of c2 # s2 \<Rightarrow> tail_byte c2 \<and> well_formed_utf8 s2 | _ \<Rightarrow> False)
      else if byte c = 0xE0 then
        (case s of
           c2 # c3 # s3 \<Rightarrow> 0xA0 \<le> byte c2 \<and> byte c2 \<le> 0xBF \<and> tail_byte c3 \<and> well_formed_utf8 s3
         | _ \<Rightarrow> False)
      else if byte c = 0xED then
        (case s of
           c2 # c3 # s3 \<Rightarrow> 0x80 \<le> byte c2 \<and> byte c2 \<le> 0x9F \<and> tail_byte c3 \<and> well_formed_utf8 s3
         | _ \<Rightarrow> False)
      else if 0xE1 \<le> byte c \<and> byte c \<le> 0xEF then
        (case s of
           c2 # c3 # s3 \<Rightarrow> tail_byte c2 \<and> tail_byte c3 \<and> well_formed_utf8 s3
         | _ \<Rightarrow> False)
      else if byte c = 0xF0 then
        (case s of
           c2 # c3 # c4 # s4 \<Rightarrow>
             0x90 \<le> byte c2 \<and> byte c2 \<le> 0xBF \<and> tail_byte c3 \<and> tail_byte c4 \<and> well_formed_utf8 s4
         | _ \<Rightarrow> False)
      else if 0xF1 \<le> byte c \<and> byte c \<le> 0xF3 then
        (case s of
           c2 # c3 # c4 # s4 \<Rightarrow> tail_byte c2 \<and> tail_byte c3 \<and> tail_byte c4 \<and> well_formed_utf8 s4
         | _ \<Rightarrow> False)
      else if byte c = 0xF4 then
        (case s of
           c2 # c3 # c4 # s4 \<Rightarrow>
             0x80 \<le> byte c2 \<and> byte c2 \<le> 0x8F \<and> tail_byte c3 \<and> tail_byte c4 \<and> well_formed_utf8 s4
         | _ \<Rightarrow> False)
      else False)"

function utf8_ignore :: "bytes \<Rightarrow> string" where
  "utf8_ignore [] = []"
| "utf8_ignore (c # s) =
     (case utf8_next c s of
        (k, ok) \<Rightarrow> (if ok then take k (c # s) else []) @ utf8_ignore (drop k (c # s)))"
  by pat_completeness auto
termination
  by (relation "measure length") (auto simp: utf8_next_def split: list.splits if_splits)

section \<open>JSON values and \<open>json.loads\<close>\<close>

text \<open>
  The value \<^verbatim>\<open>json.loads\<close> returns. An integer literal becomes \<open>JInt\<close>;
  a literal with a fraction or an exponent becomes \<open>JFloat\<close> and carries the exact
  decimal value (the double it is rounded to is not modelled; the only question asked of a
  float below is whether it is zero, see \<open>truthy\<close>). \<open>JSpecial\<close> holds the
  constants NaN, Infinity and -Infinity, which the parser accepts. An object is a Python
  dict: an association list in insertion order with unique keys, a repeated key keeps its
  first position and takes the last value.
\<close>

datatype json =
    JNull
  | JBool bool
  | JInt int
  | JFloat real
  | JSpecial string
  | JStr string
  | JArr "json list"
  | JObj "(string \<times> json) list"

datatype error =
    NotFound int
  | JSONDecodeError
  | AttributeError
  | RecursionError
  | ValueError
  | OverflowError
  | OSError

fun dict_set :: "('k \<times> 'v) list \<Rightarrow> 'k \<Rightarrow> 'v \<Rightarrow> ('k \<times> 'v) list" where
  "dict_set [] k v = [(k, v)]"
| "dict_set ((k', v') # d) k v =
     (if k' = k then (k, v) # d else (k', v') # dict_set d k v)"

definition dict_of_pairs :: "('k \<times> 'v) list \<Rightarrow> ('k \<times> 'v) list" where
  "dict_of_pairs ps = foldl (\<lambda>d (k, v). dict_set d k v) [] ps"

text \<open>
  The parser follows the library's scanner: \<open>scanstring\<close> reads a string literal
  behind its opening quote, \<open>match_number\<close> is the number pattern,
  \<open>scan_once\<close> reads one value, \<open>parse_array\<close> and
  \<open>parse_object\<close> read a container behind its opening bracket,
  \<open>array_loop\<close> and \<open>object_loop\<close> are their loops over the elements
  and the members. Malformed text is the exception \<open>JSONDecodeError\<close>.

  Two limits of the interpreter are part of the model. The scanner enters a recursive call
  for every container it opens, so text nested deeper than the interpreter allows raises
  \<open>RecursionError\<close>: the first argument of \<open>scan_once\<close> is the number of
  containers that may still be opened. \<open>recursion_limit\<close> is the depth left to
  \<^verbatim>\<open>json.loads\<close> under the default limit of 1000 frames when the call
  comes directly out of a script; a deeper call stack or another setting of
  \<^verbatim>\<open>sys.setrecursionlimit\<close> moves it, and no statement below depends on
  its value. An integer literal of more than \<open>max_str_digits\<close> digits (the sign
  not counted) raises \<open>ValueError\<close>, the interpreter's limit on converting a
  decimal numeral to \<^verbatim>\<open>int\<close>; a literal with a fraction or an exponent
  is a float and has no such limit.

  The loops take the scanner for their elements and a bound on their iterations. Every
  iteration consumes at least one character, so the bound that the callers pass, one more
  than the length of the text, is never reached (lemmas \<open>array_loop_fuel\<close> and
  \<open>object_loop_fuel\<close>: any larger bound gives the same result).
\<close>

definition is_ws :: "char \<Rightarrow> bool" where
  "is_ws c = (c = CHR '' '' \<or> c = CHR 0x09 \<or> c = CHR 0x0A \<or> c = CHR 0x0D)"

definition skip_ws :: "string \<Rightarrow> string" where
  "skip_ws s = dropWhile is_ws s"

definition digit_val :: "char \<Rightarrow> nat option" where
  "digit_val c = map_of (zip ''0123456789'' [0, 1, 2, 3, 4, 5, 6, 7, 8, 9]) c"

definition is_digit :: "char \<Rightarrow> bool" where
  "is_digit c = (digit_val c \<noteq> None)"

definition hex_val :: "char \<Rightarrow> nat option" where
  "hex_val c =
     map_of (zip ''0123456789abcdefABCDEF''
                 [0, 1, 2, 3, 4, 5, 6, 7, 8, 9, 10, 11, 12, 13, 14, 15, 10, 11, 12, 13, 14, 15]) c"

definition hex4 :: "char \<Rightarrow> char \<Rightarrow> char \<Rightarrow> char \<Rightarrow> nat option" where
  "hex4 a b c d =
     (case (hex_val a, hex_val b, hex_val c, hex_val d) of
        (Some w, Some x, Some y, Some z) \<Rightarrow> Some (((w * 16 + x) * 16 + y) * 16 + z)
      | _ \<Rightarrow> None)"

definition utf8_of_cp :: "nat \<Rightarrow> string" where
  "utf8_of_cp n =
     (if n < 0x80 then [char_of n]
      else if n < 0x800 then [char_of (0xC0 + n div 64), char_of (0x80 + n mod 64)]
      else if n < 0x10000 then
        [char_of (0xE0 + n div 4096), char_of (0x80 + n div 64 mod 64), char_of (0x80 + n mod 64)]
      else
        [char_of (0xF0 + n div 262144), char_of (0x80 + n div 4096 mod 64),
         char_of (0x80 + n div 64 mod 64), char_of (0x80 + n mod 64)])"

definition simple_escape :: "char \<Rightarrow> char option" where
  "simple_escape e =
     (if e = CHR 0x22 \<or> e = CHR 0x5C \<or> e = CHR ''/'' then Some e
      else if e = CHR ''b'' then Some (CHR 0x08)
      else if e = CHR ''f'' then Some (CHR 0x0C)
      else if e = CHR ''n'' then Some (CHR 0x0A)
      else if e = CHR ''r'' then Some (CHR 0x0D)
      else if e = CHR ''t'' then Some (CHR 0x09)
      else None)"

datatype scan_step = Closing string | Emit string string | Bad

definition unicode_escape :: "string \<Rightarrow> scan_step" where
  "unicode_escape s1 =
     (case s1 of
        h1 # h2 # h3 # h4 # s2 \<Rightarrow>
          (case hex4 h1 h2 h3 h4 of
             None \<Rightarrow> Bad
           | Some cp \<Rightarrow>
               (case s2 of
                  b # u # g1 # g2 # g3 # g4 # s3 \<Rightarrow>
                    if 0xD800 \<le> cp \<and> cp \<le> 0xDBFF \<and> s3 \<noteq> []
                       \<and> b = CHR 0x5C \<and> u = CHR ''u'' then
                      (case hex4 g1 g2 g3 g4 of
                         None \<Rightarrow> Bad
                       | Some c2 \<Rightarrow>
                           if 0xDC00 \<le> c2 \<and> c2 \<le> 0xDFFF then
                             Emit (utf8_of_cp (0x10000 + (cp - 0xD800) * 0x400 + (c2 - 0xDC00))) s3
                           else Emit (utf8_of_cp cp) s2)
                    else Emit (utf8_of_cp cp) s2
                | _ \<Rightarrow> Emit (utf8_of_cp cp) s2))
      | _ \<Rightarrow> Bad)"

definition string_step :: "char \<Rightarrow> string \<Rightarrow> scan_step" where
  "string_step c s =
     (if c = CHR 0x22 then Closing s
      else if c = CHR 0x5C then
        (case s of
           [] \<Rightarrow> Bad
         | e # s1 \<Rightarrow>
             if e = CHR ''u'' then unicode_escape s1
             else (case simple_escape e of None \<Rightarrow> Bad | Some x \<Rightarrow> Emit [x] s1))
      else if byte c \<le> 0x1F then Bad
      else Emit [c] s)"

definition prepend :: "string \<Rightarrow> error + (string \<times> string) \<Rightarrow> error + (string \<times> string)" where
  "prepend p r = (case r of Inl e \<Rightarrow> Inl e | Inr (t, rest) \<Rightarrow> Inr (p @ t, rest))"

function scanstring :: "string \<Rightarrow> error + (string \<times> string)" where
  "scanstring [] = Inl JSONDecodeError"
| "scanstring (c # s) =
     (case string_step c s of
        Closing rest \<Rightarrow> Inr ([], rest)
      | Emit p rest \<Rightarrow> prepend p (scanstring rest)
      | Bad \<Rightarrow> Inl JSONDecodeError)"
  by pat_completeness auto
termination
  by (relation "measure length")
     (auto simp: string_step_def unicode_escape_def split: list.splits if_splits option.splits)

definition digits_val :: "string \<Rightarrow> nat" where
  "digits_val ds = foldl (\<lambda>a d. 10 * a + (case digit_val d of Some v \<Rightarrow> v | None \<Rightarrow> 0)) 0 ds"

definition float_val :: "bool \<Rightarrow> string \<Rightarrow> string \<Rightarrow> bool \<Rightarrow> string \<Rightarrow> real" where
  "float_val neg ip fp eneg ex =
     (if neg then - 1 else 1) * (real (digits_val (ip @ fp)) / 10 ^ length fp)
       * (if eneg then 1 / 10 ^ digits_val ex else 10 ^ digits_val ex)"

definition int_part :: "string \<Rightarrow> (string \<times> string) option" where
  "int_part s =
     (case s of
        [] \<Rightarrow> None
      | d # r \<Rightarrow>
          if \<not> is_digit d then None
          else if d = CHR ''0'' then Some ([d], r)
          else Some (d # takeWhile is_digit r, dropWhile is_digit r))"

definition frac_part :: "string \<Rightarrow> string \<times> string" where
  "frac_part s =
     (case s of
        p # f # r \<Rightarrow>
          if p = CHR ''.'' \<and> is_digit f
          then (takeWhile is_digit (f # r), dropWhile is_digit (f # r))
          else ([], s)
      | _ \<Rightarrow> ([], s))"

definition exp_part :: "string \<Rightarrow> (bool \<times> string) option \<times> string" where
  "exp_part s =
     (case s of
        e # g # r \<Rightarrow>
          if e = CHR ''e'' \<or> e = CHR ''E'' then
            (let signed = ((g = CHR ''-'' \<or> g = CHR ''+'') \<and> r \<noteq> []);
                 ds = (if signed then r else g # r)
             in if takeWhile is_digit ds \<noteq> []
                then (Some (signed \<and> g = CHR ''-'', takeWhile is_digit ds), dropWhile is_digit ds)
                else (None, s))
          else (None, s)
      | _ \<Rightarrow> (None, s))"

definition max_str_digits :: nat where
  "max_str_digits = 4300"

definition match_number :: "string \<Rightarrow> error + (json \<times> string)" where
  "match_number s =
     (let neg = startswith s ''-'';
          s1 = (if neg then tl s else s)
      in case int_part s1 of
           None \<Rightarrow> Inl JSONDecodeError
         | Some (ip, s2) \<Rightarrow>
             (case frac_part s2 of
                (fp, s3) \<Rightarrow>
                  (case exp_part s3 of
                     (None, s4) \<Rightarrow>
                       if fp \<noteq> [] then Inr (JFloat (float_val neg ip fp False []), s4)
                       else if max_str_digits < length ip then Inl ValueError
                       else Inr (JInt ((if neg then - 1 else 1) * int (digits_val ip)), s4)
                   | (Some (eneg, ex), s4) \<Rightarrow> Inr (JFloat (float_val neg ip fp eneg ex), s4))))"

fun array_loop :: "(string \<Rightarrow> error + (json \<times> string)) \<Rightarrow> nat \<Rightarrow> string \<Rightarrow> json list
    \<Rightarrow> error + (json \<times> string)" where
  "array_loop scan 0 s acc = Inl JSONDecodeError"
| "array_loop scan (Suc k) s acc =
     (case scan s of
        Inl e \<Rightarrow> Inl e
      | Inr (v, r) \<Rightarrow>
          (case skip_ws r of
             [] \<Rightarrow> Inl JSONDecodeError
           | c # r1 \<Rightarrow>
               if c = CHR '']'' then Inr (JArr (acc @ [v]), r1)
               else if c \<noteq> CHR '','' then Inl JSONDecodeError
               else array_loop scan k (skip_ws r1) (acc @ [v])))"

definition parse_array :: "(string \<Rightarrow> error + (json \<times> string)) \<Rightarrow> string
    \<Rightarrow> error + (json \<times> string)" where
  "parse_array scan r =
     (let r1 = skip_ws r
      in if startswith r1 '']'' then Inr (JArr [], tl r1)
         else array_loop scan (Suc (length r1)) r1 [])"

fun object_loop :: "(string \<Rightarrow> error + (json \<times> string)) \<Rightarrow> nat \<Rightarrow> string
    \<Rightarrow> (string \<times> json) list \<Rightarrow> error + (json \<times> string)" where
  "object_loop scan 0 s acc = Inl JSONDecodeError"
| "object_loop scan (Suc k) s acc =
     (case s of
        [] \<Rightarrow> Inl JSONDecodeError
      | q # r \<Rightarrow>
          if q \<noteq> CHR 0x22 then Inl JSONDecodeError
          else
            (case scanstring r of
               Inl e \<Rightarrow> Inl e
             | Inr (key, r1) \<Rightarrow>
                 (case skip_ws r1 of
                    [] \<Rightarrow> Inl JSONDecodeError
                  | c # r2 \<Rightarrow>
                      if c \<noteq> CHR '':'' then Inl JSONDecodeError
                      else
                        (case scan (skip_ws r2) of
                           Inl e \<Rightarrow> Inl e
                         | Inr (v, r3) \<Rightarrow>
                             (case skip_ws r3 of
                                [] \<Rightarrow> Inl JSONDecodeError
                              | d # r4 \<Rightarrow>
                                  if d = CHR ''}'' then
                                    Inr (JObj (dict_of_pairs (acc @ [(key, v)])), r4)
                                  else if d \<noteq> CHR '','' then Inl JSONDecodeError
                                  else object_loop scan k (skip_ws r4) (acc @ [(key, v)]))))))"

definition parse_object :: "(string \<Rightarrow> error + (json \<times> string)) \<Rightarrow> string
    \<Rightarrow> error + (json \<times> string)" where
  "parse_object scan r =
     (let r1 = skip_ws r
      in if startswith r1 ''}'' then Inr (JObj [], tl r1)
         else object_loop scan (Suc (length r1)) r1 [])"

definition scan_scalar :: "string \<Rightarrow> error + (json \<times> string)" where
  "scan_scalar s =
     (case s of
        [] \<Rightarrow> Inl JSONDecodeError
      | c # r \<Rightarrow>
          if c = CHR 0x22 then
            (case scanstring r of Inl e \<Rightarrow> Inl e | Inr (t, r') \<Rightarrow> Inr (JStr t, r'))
          else if startswith s ''null'' then Inr (JNull, drop 4 s)
          else if startswith s ''true'' then Inr (JBool True, drop 4 s)
          else if startswith s ''false'' then Inr (JBool False, drop 5 s)
          else if startswith s ''NaN'' then Inr (JSpecial ''NaN'', drop 3 s)
          else if startswith s ''Infinity'' then Inr (JSpecial ''Infinity'', drop 8 s)
          else if startswith s ''-Infinity'' then Inr (JSpecial ''-Infinity'', drop 9 s)
          else match_number s)"

fun scan_once :: "nat \<Rightarrow> string \<Rightarrow> error + (json \<times> string)" where
  "scan_once 0 s =
     (if startswith s ''{'' \<or> startswith s ''['' then Inl RecursionError else scan_scalar s)"
| "scan_once (Suc n) s =
     (if startswith s ''{'' then parse_object (\<lambda>t. scan_once n t) (tl s)
      else if startswith s ''['' then parse_array (\<lambda>t. scan_once n t) (tl s)
      else scan_scalar s)"

definition recursion_limit :: nat where
  "recursion_limit = 995"

definition json_loads :: "string \<Rightarrow> error + json" where
  "json_loads s =
     (if startswith s [CHR 0xEF, CHR 0xBB, CHR 0xBF] then Inl JSONDecodeError
      else case scan_once recursion_limit (skip_ws s) of
             Inl e \<Rightarrow> Inl e
           | Inr (v, r) \<Rightarrow> if skip_ws r = [] then Inr v else Inl JSONDecodeError)"


section \<open>Python values at run time\<close>

text \<open>
  \<open>and_then\<close> sequences two steps that may raise. The functions \<open>py_get\<close>,
  \<open>py_keys\<close>, \<open>py_items\<close> and \<open>py_startswith\<close> are the method calls
  of the source on a parsed value: on a value of another type the call raises
  \<^verbatim>\<open>AttributeError\<close>. \<open>truthy\<close> is the truth value Python gives a
  parsed value (\<^verbatim>\<open>not v\<close>); a float is false when it is zero, that is when
  the literal rounds to zero. \<open>py_len\<close> is \<^verbatim>\<open>len\<close> of a
  \<^verbatim>\<open>str\<close>: the number of code points.
\<close>

definition and_then :: "error + 'a \<Rightarrow> ('a \<Rightarrow> error + 'b) \<Rightarrow> error + 'b" where
  "and_then r f = (case r of Inl e \<Rightarrow> Inl e | Inr x \<Rightarrow> f x)"

fun truthy :: "json \<Rightarrow> bool" where
  "truthy JNull = False"
| "truthy (JBool b) = b"
| "truthy (JInt i) = (i \<noteq> 0)"
| "truthy (JFloat x) = (1 < \<bar>x\<bar> * 2 ^ 1075)"
| "truthy (JSpecial s) = True"
| "truthy (JStr s) = (s \<noteq> [])"
| "truthy (JArr xs) = (xs \<noteq> [])"
| "truthy (JObj d) = (d \<noteq> [])"

definition truthy_opt :: "json option \<Rightarrow> bool" where
  "truthy_opt v = (case v of None \<Rightarrow> False | Some x \<Rightarrow> truthy x)"

definition py_get :: "json \<Rightarrow> string \<Rightarrow> error + json option" where
  "py_get d k = (case d of JObj kvs \<Rightarrow> Inr (map_of kvs k) | _ \<Rightarrow> Inl AttributeError)"

definition py_get_default :: "json \<Rightarrow> string \<Rightarrow> json \<Rightarrow> error + json" where
  "py_get_default d k dflt =
     (case d of
        JObj kvs \<Rightarrow> Inr (case map_of kvs k of None \<Rightarrow> dflt | Some v \<Rightarrow> v)
      | _ \<Rightarrow> Inl AttributeError)"

definition py_keys :: "json \<Rightarrow> error + string list" where
  "py_keys d = (case d of JObj kvs \<Rightarrow> Inr (map fst kvs) | _ \<Rightarrow> Inl AttributeError)"

definition py_items :: "json \<Rightarrow> error + (string \<times> json) list" where
  "py_items d = (case d of JObj kvs \<Rightarrow> Inr kvs | _ \<Rightarrow> Inl AttributeError)"

definition py_startswith :: "json \<Rightarrow> string \<Rightarrow> error + bool" where
  "py_startswith v p = (case v of JStr s \<Rightarrow> Inr (startswith s p) | _ \<Rightarrow> Inl AttributeError)"

definition is_str :: "json \<Rightarrow> bool" where
  "is_str v = (case v of JStr s \<Rightarrow> True | _ \<Rightarrow> False)"

definition py_len :: "string \<Rightarrow> nat" where
  "py_len s = length (filter (\<lambda>c. \<not> (0x80 \<le> byte c \<and> byte c < 0xC0)) s)"

section \<open>The requests table\<close>

text \<open>
  One row of the table \<open>requests\<close> created by \<^verbatim>\<open>init_database\<close>.
  The only INSERT statements of the repository are those of the two capture hooks, which
  bind a \<^verbatim>\<open>str\<close> to every TEXT column and a float to both REAL columns, so
  these columns are never NULL; \<open>response_status\<close> and \<open>notes\<close> may be.
  The columns \<open>id\<close>, \<open>method\<close> and \<open>notes\<close> are named
  \<open>row_id\<close>, \<open>method_col\<close> and \<open>row_notes\<close>. Times are real numbers;
  a REAL column holds those that are doubles.
  \<open>requests\<close> lists the rows in the order of a table scan, which is the order of
  their ids. \<open>seq\<close> is the counter of AUTOINCREMENT, the largest id ever given.
  \<open>idx_timestamp\<close> tells whether the index of that name exists:
  \<^verbatim>\<open>init_database\<close> of \<^verbatim>\<open>proxy_server.py\<close> creates it,
  the one of \<^verbatim>\<open>bin/traffic_analyzer.py\<close> does not.
\<close>

record row =
  row_id :: int
  timestamp :: real
  method_col :: string
  url :: string
  host :: string
  path :: string
  headers :: string
  body :: string
  response_status :: "int option"
  response_headers :: string
  response_body :: string
  duration :: real
  protocol :: string
  analyzed :: bool
  row_notes :: "string option"

record db =
  requests :: "row list"
  seq :: int
  idx_timestamp :: bool

definition init_database :: db where
  "init_database = \<lparr>requests = [], seq = 0, idx_timestamp = True\<rparr>"

definition traffic_analyzer_init_database :: db where
  "traffic_analyzer_init_database = \<lparr>requests = [], seq = 0, idx_timestamp = False\<rparr>"

text \<open>
  The row an INSERT of the hooks creates: it names twelve columns, \<open>analyzed\<close> takes
  its default 0 and \<open>notes\<close> stays NULL.
\<close>

definition mk_row :: "int \<Rightarrow> real \<Rightarrow> string \<Rightarrow> string \<Rightarrow> string \<Rightarrow> string \<Rightarrow> string \<Rightarrow> string \<Rightarrow> int option
    \<Rightarrow> string \<Rightarrow> string \<Rightarrow> real \<Rightarrow> string \<Rightarrow> row" where
  "mk_row i ts m u h p hs b st rhs rb dur pr =
     \<lparr>row_id = i, timestamp = ts, method_col = m, url = u, host = h, path = p, headers = hs, body = b,
      response_status = st, response_headers = rhs, response_body = rb, duration = dur,
      protocol = pr, analyzed = False, row_notes = None\<rparr>"

text \<open>
  \<^verbatim>\<open>SELECT * FROM requests WHERE id = ?\<close> with \<^verbatim>\<open>fetchone\<close>.
  \<open>find_by_id\<close> is the statement on an integer; \<open>sqlite_integer\<close> is the
  binding of a Python \<^verbatim>\<open>int\<close> to a parameter, which raises
  \<^verbatim>\<open>OverflowError\<close> outside 64 bits; \<open>select_by_id\<close> is the
  statement as the callers with an \<^verbatim>\<open>int\<close> execute it.
\<close>

definition find_by_id :: "db \<Rightarrow> int \<Rightarrow> row option" where
  "find_by_id d i = find (\<lambda>r. row_id r = i) (requests d)"

definition sqlite_integer :: "int \<Rightarrow> error + int" where
  "sqlite_integer i = (if - (2 ^ 63) \<le> i \<and> i < 2 ^ 63 then Inr i else Inl OverflowError)"

definition select_by_id :: "db \<Rightarrow> int \<Rightarrow> error + row option" where
  "select_by_id d i = (case sqlite_integer i of Inl e \<Rightarrow> Inl e | Inr k \<Rightarrow> Inr (find_by_id d k))"

text \<open>
  \<^verbatim>\<open>ORDER BY timestamp\<close>, \<^verbatim>\<open>ORDER BY timestamp DESC\<close> and
  \<^verbatim>\<open>LIMIT ?\<close> (a negative limit is no limit). SQL leaves open the order of
  rows that have equal timestamps, and SQLite decides it by the way it reads the table.
  If the index exists it walks the index, forwards or, for DESC, backwards; its entries
  are ordered by timestamp, equal timestamps by id, so that equal timestamps come out in
  descending order of id under DESC. Without the index it sorts the rows of the scan, and equal
  timestamps keep the order of their ids, in both directions. (Observed with SQLite 3.46,
  the host filter making no difference.)
\<close>

definition order_by_timestamp :: "row list \<Rightarrow> row list" where
  "order_by_timestamp rs = sort_key timestamp rs"

definition order_by_timestamp_desc :: "db \<Rightarrow> row list \<Rightarrow> row list" where
  "order_by_timestamp_desc d rs =
     (if idx_timestamp d then rev (sort_key timestamp rs) else sort_key (\<lambda>r. - timestamp r) rs)"

definition limit_rows :: "int \<Rightarrow> 'a list \<Rightarrow> 'a list" where
  "limit_rows n rs = (if n < 0 then rs else take (nat n) rs)"

section \<open>Analysis of one exchange\<close>

text \<open>
  \<^verbatim>\<open>CopilotAgent.analyze_request\<close> and its helpers. A finding is one of
  eight fixed messages, a recommendation one of seven (three of them quote a number); the
  constructors stand for the messages. The summary sentence is kept as the parts it is
  formatted from. \<open>security_score\<close> is a float in the source; its values
  \<open>100 - 10 n\<close> are whole numbers, exact in a double.
\<close>

datatype issue =
    SensitiveDataInUrl
  | MissingHSTS
  | MissingXContentTypeOptions
  | MissingXFrameOptions
  | InsecureHttp
  | BasicAuth
  | SqlInjection
  | XssPayload

datatype advice =
    VerySlow real
  | Slow real
  | LargeResponse nat
  | AddCacheHeaders
  | EnableCompression
  | AddApiVersion
  | RestrictCors

datatype status_class = Succeeded | Redirected | ClientError | ServerError

record summary =
  sm_method :: string
  sm_url :: string
  sm_status :: "(status_class \<times> int) option"
  sm_duration_ms :: real
  sm_issues :: nat
  sm_suggestions :: nat

record insights =
  in_method :: string
  in_status_code :: "int option"
  in_duration_ms :: real
  in_has_auth :: bool
  in_content_type :: json
  in_size_bytes :: nat

record RequestAnalysis =
  request_id :: int
  security_score :: real
  vulnerabilities :: "issue list"
  recommendations :: "advice list"
  summary :: summary
  insights :: insights

text \<open>
  \<^verbatim>\<open>_check_security\<close> appends to \<open>issues\<close> in the order of the source.
  The three response headers are looked up with \<^verbatim>\<open>response_headers.get\<close>
  under their lower-case names, and a header counts as present when its value is true in
  Python's sense. The authorization header is looked for among the lower-cased keys of the
  request headers, its value is then fetched under two spellings.
\<close>

definition check_security :: "row \<Rightarrow> json \<Rightarrow> json \<Rightarrow> error + issue list" where
  "check_security req hdrs resp_hdrs =
     (let url_lower = lower (url req);
          sensitive_keywords = [''password'', ''token'', ''secret'', ''api_key'', ''apikey''];
          issues1 = (if list_ex (\<lambda>keyword. str_in keyword url_lower) sensitive_keywords
                     then [SensitiveDataInUrl] else [])
      in and_then (py_get resp_hdrs ''strict-transport-security'') (\<lambda>hsts.
         and_then (py_get resp_hdrs ''x-content-type-options'') (\<lambda>xcto.
         and_then (py_get resp_hdrs ''x-frame-options'') (\<lambda>xfo.
         let issues2 = issues1 @ (if \<not> truthy_opt hsts then [MissingHSTS] else []);
             issues3 = issues2 @ (if \<not> truthy_opt xcto then [MissingXContentTypeOptions] else []);
             issues4 = issues3 @ (if \<not> truthy_opt xfo then [MissingXFrameOptions] else []);
             issues5 = issues4 @ (if protocol req = ''http'' then [InsecureHttp] else [])
         in and_then (py_keys hdrs) (\<lambda>ks.
            and_then
              (if ''authorization'' \<in> set (map lower ks) then
                 and_then (py_get_default hdrs ''authorization'' (JStr [])) (\<lambda>inner.
                 and_then (py_get_default hdrs ''Authorization'' inner) (\<lambda>auth_value.
                 py_startswith auth_value ''Basic ''))
               else Inr False) (\<lambda>basic.
            let issues6 = issues5 @ (if basic then [BasicAuth] else []);
                sql_patterns = [''SELECT '', ''INSERT '', ''UPDATE '', ''DELETE '', ''DROP '', ''UNION ''];
                issues7 = issues6 @ (if list_ex (\<lambda>pattern. str_in pattern (upper (body req))) sql_patterns
                                     then [SqlInjection] else []);
                xss_patterns = [''<script'', ''javascript:'', ''onerror='', ''onload=''];
                issues8 = issues7 @ (if list_ex (\<lambda>pattern. str_in pattern (lower (body req))) xss_patterns
                                     then [XssPayload] else [])
            in Inr issues8))))))"

definition check_performance :: "row \<Rightarrow> advice list" where
  "check_performance req =
     (if duration req > 5 then [VerySlow (duration req)]
      else if duration req > 2 then [Slow (duration req)]
      else [])
     @ (if py_len (response_body req) > 1000000 then [LargeResponse (py_len (response_body req))]
        else [])"

definition check_best_practices :: "row \<Rightarrow> json \<Rightarrow> json \<Rightarrow> error + advice list" where
  "check_best_practices req hdrs resp_hdrs =
     and_then
       (if method_col req = ''GET'' then
          and_then (py_get resp_hdrs ''cache-control'') (\<lambda>cc.
            if \<not> truthy_opt cc then
              and_then (py_get resp_hdrs ''etag'') (\<lambda>et.
                Inr (if \<not> truthy_opt et then [AddCacheHeaders] else []))
            else Inr [])
        else Inr []) (\<lambda>recs1.
     and_then (py_keys resp_hdrs) (\<lambda>ks.
     let recs2 = recs1 @ (if ''content-encoding'' \<notin> set (map lower ks) then [EnableCompression] else []);
         recs3 = recs2 @ (if str_in ''/api/'' (path req)
                             \<and> \<not> list_ex (\<lambda>v. str_in v (path req)) [''/v1/'', ''/v2/'', ''/v3/'']
                          then [AddApiVersion] else [])
     in and_then (py_get resp_hdrs ''access-control-allow-origin'') (\<lambda>acao.
        Inr (recs3 @ (if acao = Some (JStr ''*'') then [RestrictCors] else [])))))"

definition generate_summary :: "row \<Rightarrow> issue list \<Rightarrow> advice list \<Rightarrow> summary" where
  "generate_summary req vulns recs =
     \<lparr>sm_method = method_col req,
      sm_url = url req,
      sm_status =
        (case response_status req of
           None \<Rightarrow> None
         | Some status \<Rightarrow>
             if status = 0 then None
             else if 200 \<le> status \<and> status < 300 then Some (Succeeded, status)
             else if 300 \<le> status \<and> status < 400 then Some (Redirected, status)
             else if 400 \<le> status \<and> status < 500 then Some (ClientError, status)
             else Some (ServerError, status)),
      sm_duration_ms = duration req * 1000,
      sm_issues = length vulns,
      sm_suggestions = length recs\<rparr>"

text \<open>
  \<^verbatim>\<open>analyze_request\<close> raises \<^verbatim>\<open>ValueError\<close> with the
  message that the request was not found for an id that has no row (\<open>NotFound\<close>),
  and whatever the SELECT, \<^verbatim>\<open>json.loads\<close> or a helper raises: the source
  has no handler around them.
\<close>

definition analyze_request :: "db \<Rightarrow> int \<Rightarrow> error + RequestAnalysis" where
  "analyze_request d rid =
     (case select_by_id d rid of
        Inl e \<Rightarrow> Inl e
      | Inr None \<Rightarrow> Inl (NotFound rid)
      | Inr (Some req) \<Rightarrow>
          and_then (json_loads (headers req)) (\<lambda>hdrs.
          and_then (json_loads (response_headers req)) (\<lambda>resp_hdrs.
          and_then (check_security req hdrs resp_hdrs) (\<lambda>security_issues.
          let vulns = security_issues;
              score = 100 - real (length security_issues) * 10;
              perf_issues = check_performance req
          in and_then (check_best_practices req hdrs resp_hdrs) (\<lambda>best_practices.
             let recs = perf_issues @ best_practices;
                 smry = generate_summary req vulns recs
             in and_then (py_keys hdrs) (\<lambda>ks.
                and_then (py_get_default hdrs ''content-type'' (JStr ''unknown'')) (\<lambda>ctype.
                Inr \<lparr>request_id = rid,
                     security_score = max 0 score,
                     vulnerabilities = vulns,
                     recommendations = recs,
                     summary = smry,
                     insights =
                       \<lparr>in_method = method_col req,
                        in_status_code = response_status req,
                        in_duration_ms = duration req * 1000,
                        in_has_auth = list_ex (\<lambda>h. str_in ''auth'' (lower h)) ks,
                        in_content_type = ctype,
                        in_size_bytes = py_len (body req)\<rparr>\<rparr>)))))))"

text \<open>
  The table of the login scenario: one exchange over http with a password in the URL and no
  response headers.
\<close>

definition login_db :: db where
  "login_db =
     \<lparr>requests = [mk_row 1 1000 ''GET'' ''http://example.com/login?password=123'' ''example.com''
                    ''/login?password=123'' ''{}'' [] (Some 200) ''{}'' [] (1 / 10) ''http''],
      seq = 1, idx_timestamp = True\<rparr>"


section \<open>Capture hooks\<close>

text \<open>
  Decimal text of a number, as an f-string prints it.
\<close>

definition digit_char :: "nat \<Rightarrow> char" where
  "digit_char n = ''0123456789'' ! n"

function str_of_nat :: "nat \<Rightarrow> string" where
  "str_of_nat n = (if n < 10 then [digit_char n] else str_of_nat (n div 10) @ [digit_char (n mod 10)])"
  by pat_completeness auto
termination
  by (relation "measure id") auto

declare str_of_nat.simps [simp del]

definition str_of_int :: "int \<Rightarrow> string" where
  "str_of_int i = (if i < 0 then ''-'' @ str_of_nat (nat (- i)) else str_of_nat (nat i))"

text \<open>
  The flow the proxy hands to a hook: the request, the response if there is one, and the
  entry \<^verbatim>\<open>metadata['start_time']\<close>. \<^verbatim>\<open>request\<close> stores the
  clock reading there. The attribute \<^verbatim>\<open>content\<close> of a message is
  computed by the proxy when it is read: it is the body with its Content-Encoding undone,
  \<^verbatim>\<open>None\<close> when the message has no body, and reading it raises
  \<^verbatim>\<open>ValueError\<close> when the body cannot be decoded as its Content-Encoding
  says. So \<open>rq_content\<close> and \<open>rs_content\<close> are results that may be an
  exception. The other attributes are plain values, text being text that has a UTF-8
  encoding. (The proxy decodes a URL or a header whose bytes are not UTF-8 into text with
  lone surrogates, which has no encoding and which SQLite refuses to bind; such flows are
  outside the model.)
\<close>

record http_request =
  rq_method :: string
  rq_url :: string
  rq_host :: string
  rq_path :: string
  rq_scheme :: string
  rq_headers :: "(string \<times> string) list"
  rq_content :: "error + bytes option"

record http_response =
  rs_status_code :: int
  rs_headers :: "(string \<times> string) list"
  rs_content :: "error + bytes option"

record flow =
  fl_request :: http_request
  fl_response :: "http_response option"
  start_time :: "real option"

definition request_hook :: "real \<Rightarrow> flow \<Rightarrow> flow" where
  "request_hook now fl = fl\<lparr>start_time := Some now\<rparr>"

text \<open>
  The INSERT of the hooks. AUTOINCREMENT gives the new row an id above every id in the table
  and above every id given before.
\<close>

definition next_id :: "db \<Rightarrow> int" where
  "next_id d = fold max (map row_id (requests d)) (seq d) + 1"

definition insert_request :: "db \<Rightarrow> real \<Rightarrow> string \<Rightarrow> string \<Rightarrow> string \<Rightarrow> string \<Rightarrow> string \<Rightarrow> string
    \<Rightarrow> int option \<Rightarrow> string \<Rightarrow> string \<Rightarrow> real \<Rightarrow> string \<Rightarrow> db" where
  "insert_request d ts m u h p hs b st rhs rb dur pr =
     d\<lparr>requests := requests d @ [mk_row (next_id d) ts m u h p hs b st rhs rb dur pr],
       seq := next_id d\<rparr>"

text \<open>
  \<^verbatim>\<open>TrafficCapture.response\<close> of \<^verbatim>\<open>proxy_server.py\<close>.
  The body calls \<^verbatim>\<open>time.time()\<close> three times: \<open>now1\<close> and
  \<open>now2\<close> are the two readings of
  \<^verbatim>\<open>time.time() - flow.metadata.get('start_time', time.time())\<close> in the order
  Python evaluates them (the default of \<^verbatim>\<open>get\<close> is evaluated whether or not
  the key is present), \<open>now3\<close> is the reading bound to \<open>timestamp\<close> in the
  INSERT. \<open>dumps\<close> is \<^verbatim>\<open>json.dumps(dict(headers))\<close>, the library's
  serialisation of the header fields; the hooks are parametric in it.

  The whole body stands in \<^verbatim>\<open>try: ... except Exception\<close>, whose handler
  logs the error: \<open>try_store d attempt\<close> is the table after the attempt, the old
  table \<open>d\<close> when the attempt raised. The attempt raises when reading a
  \<^verbatim>\<open>content\<close> raises; \<open>response_content\<close> is
  \<^verbatim>\<open>response and response.content\<close>, which reads the content only if
  there is a response. Decoding with \<^verbatim>\<open>errors='ignore'\<close> never raises, so
  the inner handlers that would store base64 text are never entered. The statements on the
  database are taken to succeed: a locked or unwritable database file is outside the model.
\<close>

definition too_large :: "nat \<Rightarrow> string" where
  "too_large n = ''[Response too large: '' @ str_of_nat n @ '' bytes]''"

definition response_content :: "http_response option \<Rightarrow> error + bytes option" where
  "response_content response = (case response of None \<Rightarrow> Inr None | Some r \<Rightarrow> rs_content r)"

definition try_store :: "db \<Rightarrow> error + db \<Rightarrow> db" where
  "try_store d attempt = (case attempt of Inl e \<Rightarrow> d | Inr d' \<Rightarrow> d')"

definition proxy_server_response ::
    "((string \<times> string) list \<Rightarrow> string) \<Rightarrow> flow \<Rightarrow> real \<Rightarrow> real \<Rightarrow> real \<Rightarrow> db \<Rightarrow> db" where
  "proxy_server_response dumps fl now1 now2 now3 d =
     try_store d
       (let dur = now1 - (case start_time fl of Some t \<Rightarrow> t | None \<Rightarrow> now2);
            request = fl_request fl;
            response = fl_response fl;
            request_headers = rq_headers request;
            response_headers = (case response of Some r \<Rightarrow> rs_headers r | None \<Rightarrow> [])
        in and_then (rq_content request) (\<lambda>request_content.
           let request_body =
                 (case request_content of
                    None \<Rightarrow> []
                  | Some c \<Rightarrow> if c \<noteq> [] then utf8_ignore c else [])
           in and_then (response_content response) (\<lambda>content.
              let response_body =
                    (case content of
                       None \<Rightarrow> []
                     | Some c \<Rightarrow>
                         if c = [] then []
                         else if length c < 1024 * 1024 then utf8_ignore c
                         else too_large (length c))
              in Inr (insert_request d now3 (rq_method request) (rq_url request) (rq_host request)
                        (rq_path request) (dumps request_headers) request_body
                        (case response of Some r \<Rightarrow> Some (rs_status_code r) | None \<Rightarrow> None)
                        (dumps response_headers) response_body dur (rq_scheme request)))))"

text \<open>
  \<^verbatim>\<open>TrafficCapture.response\<close> of \<^verbatim>\<open>bin/traffic_analyzer.py\<close>:
  the same three clock readings, no limit on either body, status 0 and headers \<open>{}\<close>
  when there is no response. The duration is computed before the
  \<^verbatim>\<open>try\<close>, everything else inside it; the handler prints the error and
  nothing is committed. The counter \<^verbatim>\<open>request_count\<close> and the console
  line are not part of the table.
\<close>

definition traffic_analyzer_response ::
    "((string \<times> string) list \<Rightarrow> string) \<Rightarrow> flow \<Rightarrow> real \<Rightarrow> real \<Rightarrow> real \<Rightarrow> db \<Rightarrow> db" where
  "traffic_analyzer_response dumps fl now1 now2 now3 d =
     (let dur = now1 - (case start_time fl of Some t \<Rightarrow> t | None \<Rightarrow> now2)
      in try_store d
           (let req = fl_request fl;
                resp = fl_response fl;
                hdrs = dumps (rq_headers req)
            in and_then (rq_content req) (\<lambda>request_content.
               let bdy = (case request_content of
                            None \<Rightarrow> []
                          | Some c \<Rightarrow> if c \<noteq> [] then utf8_ignore c else []);
                   resp_headers = (case resp of Some r \<Rightarrow> dumps (rs_headers r) | None \<Rightarrow> ''{}'')
               in and_then (response_content resp) (\<lambda>content.
                  let resp_body = (case content of
                                     None \<Rightarrow> []
                                   | Some c \<Rightarrow> if c \<noteq> [] then utf8_ignore c else []);
                      resp_status = (case resp of Some r \<Rightarrow> rs_status_code r | None \<Rightarrow> 0)
                  in Inr (insert_request d now3 (rq_method req) (rq_url req) (rq_host req)
                            (rq_path req) hdrs bdy (Some resp_status) resp_headers resp_body dur
                            (rq_scheme req))))))"

text \<open>
  Both contents of a flow can be read: the condition under which a hook stores the exchange.
\<close>

definition bodies_readable :: "flow \<Rightarrow> bool" where
  "bodies_readable fl =
     (\<not> isl (rq_content (fl_request fl)) \<and> \<not> isl (response_content (fl_response fl)))"

section \<open>Query and action handlers\<close>

text \<open>
  A handler answers with \<open>Reply status body\<close>; \<open>ErrorReply 500 e\<close> is the answer
  that reports the exception \<open>e\<close> as text. \<open>row_dict\<close> is
  \<^verbatim>\<open>dict(row)\<close>. The handlers of \<^verbatim>\<open>proxy_server.py\<close> pass the
  id as the text of the URL segment, and SQLite compares the INTEGER column with the number
  the text spells, if it spells one. \<open>int_of_text\<close> is that conversion: white
  space, an optional sign, digits with an optional decimal point, an optional exponent,
  white space; the text matches the id that equals its value, and no id when it is not a
  numeral or its value is not whole. SQLite converts a numeral that has a point or an
  exponent through a double, where \<open>int_of_text\<close> takes the exact value: the two
  agree as long as the double is exact, which covers the ids below \<open>2 ^ 53\<close> and
  the numerals of at most 15 significant digits whose exponent lies between -22 and 22.
\<close>

datatype reply = Reply nat json | ErrorReply nat error

definition opt_json :: "('a \<Rightarrow> json) \<Rightarrow> 'a option \<Rightarrow> json" where
  "opt_json f v = (case v of None \<Rightarrow> JNull | Some x \<Rightarrow> f x)"

definition row_dict :: "row \<Rightarrow> json" where
  "row_dict r =
     JObj [(''id'', JInt (row_id r)),
           (''timestamp'', JFloat (timestamp r)),
           (''method'', JStr (method_col r)),
           (''url'', JStr (url r)),
           (''host'', JStr (host r)),
           (''path'', JStr (path r)),
           (''headers'', JStr (headers r)),
           (''body'', JStr (body r)),
           (''response_status'', opt_json JInt (response_status r)),
           (''response_headers'', JStr (response_headers r)),
           (''response_body'', JStr (response_body r)),
           (''duration'', JFloat (duration r)),
           (''protocol'', JStr (protocol r)),
           (''analyzed'', JInt (if analyzed r then 1 else 0)),
           (''notes'', opt_json JStr (row_notes r))]"

definition is_space :: "char \<Rightarrow> bool" where
  "is_space c = (c = CHR '' '' \<or> (0x09 \<le> byte c \<and> byte c \<le> 0x0D))"

definition int_of_text :: "string \<Rightarrow> int option" where
  "int_of_text s =
     (let s0 = dropWhile is_space s;
          neg = startswith s0 ''-'';
          s1 = (if neg \<or> startswith s0 ''+'' then tl s0 else s0);
          ip = takeWhile is_digit s1;
          s2 = dropWhile is_digit s1;
          dot = startswith s2 ''.'';
          fp = (if dot then takeWhile is_digit (tl s2) else []);
          s3 = (if dot then dropWhile is_digit (tl s2) else s2);
          has_exp = (startswith s3 ''e'' \<or> startswith s3 ''E'');
          r = (if has_exp then tl s3 else s3);
          eneg = (has_exp \<and> startswith r ''-'');
          r2 = (if has_exp \<and> (eneg \<or> startswith r ''+'') then tl r else r);
          ex = (if has_exp then takeWhile is_digit r2 else []);
          s4 = (if has_exp then dropWhile is_digit r2 else s3);
          num = digits_val (ip @ fp) * 10 ^ (if eneg then 0 else digits_val ex);
          den = 10 ^ (length fp + (if eneg then digits_val ex else 0))
      in if ip @ fp = [] \<or> (has_exp \<and> ex = []) \<or> dropWhile is_space s4 \<noteq> []
            \<or> num mod den \<noteq> 0
         then None
         else Some ((if neg then - 1 else 1) * int (num div den)))"

definition select_by_text_id :: "db \<Rightarrow> string \<Rightarrow> row option" where
  "select_by_text_id d t = (case int_of_text t of None \<Rightarrow> None | Some i \<Rightarrow> find_by_id d i)"

definition get_request_detail :: "db \<Rightarrow> string \<Rightarrow> reply" where
  "get_request_detail d rid =
     (case select_by_text_id d rid of
        Some r \<Rightarrow> Reply 200 (row_dict r)
      | None \<Rightarrow> Reply 404 (JObj [(''error'', JStr ''Request not found'')]))"

text \<open>
  Statements as state transformers. The handlers that are named as actions are built from
  them, so that what they leave in the table can be stated.
\<close>

definition execute_select_by_id :: "int \<Rightarrow> db \<Rightarrow> (error + row option) \<times> db" where
  "execute_select_by_id i d = (select_by_id d i, d)"

definition execute_select_by_text_id :: "string \<Rightarrow> db \<Rightarrow> row option \<times> db" where
  "execute_select_by_text_id t d = (select_by_text_id d t, d)"

definition execute_mark_analyzed :: "string \<Rightarrow> db \<Rightarrow> db" where
  "execute_mark_analyzed t d =
     (case int_of_text t of
        None \<Rightarrow> d
      | Some i \<Rightarrow> d\<lparr>requests := map (\<lambda>r. if row_id r = i then r\<lparr>analyzed := True\<rparr> else r) (requests d)\<rparr>)"

definition execute_delete_all :: "db \<Rightarrow> db" where
  "execute_delete_all d = d\<lparr>requests := []\<rparr>"

text \<open>
  \<^verbatim>\<open>CopilotAPIServer.replay_request\<close> and
  \<^verbatim>\<open>modify_and_replay\<close>, then the handlers of
  \<^verbatim>\<open>ProxyManager\<close>. \<open>request_text\<close> is the body of the POST, which
  \<^verbatim>\<open>request.json()\<close> parses before the table is opened.
\<close>

definition not_found_reply :: reply where
  "not_found_reply = Reply 404 (JObj [(''success'', JBool False), (''error'', JStr ''Request not found'')])"

definition replay_request :: "int \<Rightarrow> db \<Rightarrow> reply \<times> db" where
  "replay_request rid d =
     (let (row, d1) = execute_select_by_id rid d
      in case row of
           Inl e \<Rightarrow> (ErrorReply 500 e, d1)
         | Inr None \<Rightarrow> (not_found_reply, d1)
         | Inr (Some req_data) \<Rightarrow>
             (case json_loads (headers req_data) of
                Inl e \<Rightarrow> (ErrorReply 500 e, d1)
              | Inr hdrs \<Rightarrow>
                  (Reply 200
                     (JObj [(''success'', JBool True),
                            (''message'', JStr (''Request '' @ str_of_int rid @ '' replayed'')),
                            (''request'',
                             JObj [(''method'', JStr (method_col req_data)),
                                   (''url'', JStr (url req_data)),
                                   (''headers'', hdrs),
                                   (''body'', JStr (body req_data))])]), d1)))"

definition modify_and_replay :: "int \<Rightarrow> string \<Rightarrow> db \<Rightarrow> reply \<times> db" where
  "modify_and_replay rid request_text d =
     (case json_loads request_text of
        Inl e \<Rightarrow> (ErrorReply 500 e, d)
      | Inr modifications \<Rightarrow>
          (let (row, d1) = execute_select_by_id rid d
           in case row of
                Inl e \<Rightarrow> (ErrorReply 500 e, d1)
              | Inr None \<Rightarrow> (not_found_reply, d1)
              | Inr (Some req_data) \<Rightarrow>
                  (case
                     and_then (py_get_default modifications ''url'' (JStr (url req_data))) (\<lambda>m_url.
                     and_then (json_loads (headers req_data)) (\<lambda>hdrs.
                     and_then (py_get_default modifications ''headers'' hdrs) (\<lambda>m_headers.
                     and_then (py_get_default modifications ''body'' (JStr (body req_data))) (\<lambda>m_body.
                     and_then (json_loads (headers req_data)) (\<lambda>hdrs2.
                     Inr (JObj [(''success'', JBool True),
                                (''message'',
                                 JStr (''Modified request '' @ str_of_int rid @ '' ready to replay'')),
                                (''original'',
                                 JObj [(''url'', JStr (url req_data)),
                                       (''headers'', hdrs2),
                                       (''body'', JStr (body req_data))]),
                                (''modified'',
                                 JObj [(''method'', JStr (method_col req_data)),
                                       (''url'', m_url),
                                       (''headers'', m_headers),
                                       (''body'', m_body)])]))))))
                   of Inl e \<Rightarrow> (ErrorReply 500 e, d1)
                    | Inr payload \<Rightarrow> (Reply 200 payload, d1))))"

definition proxy_manager_replay_request :: "string \<Rightarrow> db \<Rightarrow> reply \<times> db" where
  "proxy_manager_replay_request rid d =
     (let (row, d1) = execute_select_by_text_id rid d
      in case row of
           None \<Rightarrow> (Reply 404 (JObj [(''error'', JStr ''Request not found'')]), d1)
         | Some r \<Rightarrow>
             (Reply 200
                (JObj [(''message'', JStr (''Request '' @ rid @ '' replay initiated'')),
                       (''url'', JStr (url r)),
                       (''method'', JStr (method_col r))]), d1))"

definition proxy_manager_analyze_request :: "string \<Rightarrow> db \<Rightarrow> reply \<times> db" where
  "proxy_manager_analyze_request rid d =
     (let (row, d1) = execute_select_by_text_id rid d
      in case row of
           None \<Rightarrow> (Reply 404 (JObj [(''error'', JStr ''Request not found'')]), d1)
         | Some req_data \<Rightarrow>
             (case and_then (json_loads (headers req_data)) py_keys of
                Inl e \<Rightarrow> (ErrorReply 500 e, d1)
              | Inr ks \<Rightarrow>
                  (Reply 200
                     (JObj [(''summary'', JStr (method_col req_data @ '' request to '' @ url req_data)),
                            (''status'', opt_json JInt (response_status req_data)),
                            (''security_notes'',
                             JArr (if ''authorization'' \<in> set (map lower ks)
                                   then [JStr ''Contains authorization header''] else [])),
                            (''performance'',
                             JObj [(''duration_ms'', JFloat (duration req_data * 1000)),
                                   (''rating'', JStr (if duration req_data < 1 then ''good'' else ''slow''))]),
                            (''suggestions'',
                             JArr [JStr ''Request captured successfully'',
                                   JStr ''Use Copilot agent mode for deeper analysis''])]),
                   execute_mark_analyzed rid d1)))"

definition clear_traffic :: "db \<Rightarrow> reply \<times> db" where
  "clear_traffic d = (Reply 200 (JObj [(''message'', JStr ''Traffic cleared'')]), execute_delete_all d)"

section \<open>Security scan\<close>





definition scanned_ids :: "db \<Rightarrow> int list" where
  "scanned_ids d = map row_id (limit_rows 100 (order_by_timestamp_desc d (requests d)))"


section \<open>HAR export\<close>

text \<open>
  The two HAR exports: \<^verbatim>\<open>CopilotAPIServer.export_har\<close> takes every row in
  ascending order of time, \<^verbatim>\<open>TrafficAnalyzerCLI.export_har\<close> the rows that
  pass \<^verbatim>\<open>_host_clause_and_params(None)\<close>, latest first, up to a limit, and
  writes the document to a file. The document is the dict the source builds; the two
  time stamps of an entry are kept as numbers where the source formats them as text.
  \<open>count_requests\<close> is \<^verbatim>\<open>SELECT COUNT(*)\<close> under the same clause.
\<close>

definition name_value :: "(string \<times> json) list \<Rightarrow> json" where
  "name_value items = JArr (map (\<lambda>(k, v). JObj [(''name'', JStr k), (''value'', v)]) items)"

definition har_document :: "string \<Rightarrow> json list \<Rightarrow> json" where
  "har_document creator_version entries =
     JObj [(''log'',
            JObj [(''version'', JStr ''1.2''),
                  (''creator'', JObj [(''name'', JStr ''Traffic Analyzer''),
                                      (''version'', JStr creator_version)]),
                  (''entries'', JArr entries)])]"

definition log_entries :: "json \<Rightarrow> json list" where
  "log_entries har =
     (case har of
        JObj outer \<Rightarrow>
          (case map_of outer ''log'' of
             Some (JObj lg) \<Rightarrow> (case map_of lg ''entries'' of Some (JArr es) \<Rightarrow> es | _ \<Rightarrow> [])
           | _ \<Rightarrow> [])
      | _ \<Rightarrow> [])"

definition api_entry :: "row \<Rightarrow> error + json" where
  "api_entry req =
     and_then (and_then (json_loads (headers req)) py_items) (\<lambda>hs.
     and_then (and_then (json_loads (response_headers req)) py_items) (\<lambda>rhs.
     Inr (JObj [(''startedDateTime'', JFloat (timestamp req)),
                (''time'', JFloat (duration req * 1000)),
                (''request'',
                 JObj [(''method'', JStr (method_col req)),
                       (''url'', JStr (url req)),
                       (''httpVersion'', JStr ''HTTP/1.1''),
                       (''headers'', name_value hs),
                       (''postData'', JObj [(''text'', JStr (body req))])]),
                (''response'',
                 JObj [(''status'', JInt (case response_status req of None \<Rightarrow> 0 | Some st \<Rightarrow> st)),
                       (''statusText'', JStr ''OK''),
                       (''httpVersion'', JStr ''HTTP/1.1''),
                       (''headers'', name_value rhs),
                       (''content'', JObj [(''text'', JStr (response_body req))])])])))"

definition is_object :: "error + json \<Rightarrow> bool" where
  "is_object r = (case r of Inr (JObj kvs) \<Rightarrow> True | _ \<Rightarrow> False)"

definition has_header_objects :: "row \<Rightarrow> bool" where
  "has_header_objects r =
     (is_object (json_loads (headers r)) \<and> is_object (json_loads (response_headers r)))"

fun build_entries :: "(row \<Rightarrow> error + json) \<Rightarrow> row list \<Rightarrow> json list \<Rightarrow> error + json list" where
  "build_entries mk [] entries = Inr entries"
| "build_entries mk (r # rows) entries =
     (case mk r of Inl e \<Rightarrow> Inl e | Inr entry \<Rightarrow> build_entries mk rows (entries @ [entry]))"

definition export_har :: "db \<Rightarrow> reply" where
  "export_har d =
     (case build_entries api_entry (order_by_timestamp (requests d)) [] of
        Inl e \<Rightarrow> ErrorReply 500 e
      | Inr entries \<Rightarrow> Reply 200 (har_document ''1.0'' entries))"

text \<open>
  \<^verbatim>\<open>host LIKE '%zybooks%'\<close>: LIKE of SQLite ignores the case of ASCII
  letters and of no others.
\<close>

definition like_contains :: "string \<Rightarrow> string \<Rightarrow> bool" where
  "like_contains p s = str_in (map lower_char p) (map lower_char s)"

definition host_clause_and_params :: "bool \<Rightarrow> row \<Rightarrow> bool" where
  "host_clause_and_params only_zybooks r = (if only_zybooks then like_contains ''zybooks'' (host r) else True)"

definition count_requests :: "bool \<Rightarrow> db \<Rightarrow> nat" where
  "count_requests only_zybooks d = length (filter (host_clause_and_params only_zybooks) (requests d))"

text \<open>
  \<^verbatim>\<open>datetime.fromtimestamp\<close> for local time UTC on 64-bit Linux: it raises
  \<^verbatim>\<open>OverflowError\<close> outside the range of \<^verbatim>\<open>time_t\<close>,
  \<^verbatim>\<open>OSError\<close> where the C library cannot express the year, and
  \<^verbatim>\<open>ValueError\<close> for a year outside 1 to 9999 (the first day of year 1 is
  refused as well, because the conversion looks one day back). The date it returns is kept
  as the instant it denotes. The export of the command line binds its limit as an integer
  parameter, see \<open>sqlite_integer\<close>.
\<close>

definition fromtimestamp :: "real \<Rightarrow> error + real" where
  "fromtimestamp t =
     (if t < - (2 ^ 63) \<or> 2 ^ 63 \<le> t then Inl OverflowError
      else if t < - 67768040609740800 \<or> 67768036191676800 \<le> t then Inl OSError
      else if t < - 62135510400 \<or> 253402300800 \<le> t then Inl ValueError
      else Inr t)"

definition cli_entry :: "row \<Rightarrow> error + json" where
  "cli_entry r =
     and_then (fromtimestamp (timestamp r)) (\<lambda>started.
     and_then (and_then (json_loads (headers r)) py_items) (\<lambda>hs.
     and_then (and_then (json_loads (response_headers r)) py_items) (\<lambda>rhs.
     Inr (JObj [(''startedDateTime'', JFloat started),
                (''time'', JFloat (duration r * 1000)),
                (''request'',
                 JObj [(''method'', JStr (method_col r)),
                       (''url'', JStr (url r)),
                       (''httpVersion'', JStr ''HTTP/1.1''),
                       (''headers'', name_value hs),
                       (''queryString'', JArr []),
                       (''bodySize'', JInt (int (py_len (body r))))]),
                (''response'',
                 JObj [(''status'', opt_json JInt (response_status r)),
                       (''statusText'', JStr ''OK''),
                       (''httpVersion'', JStr ''HTTP/1.1''),
                       (''headers'', name_value rhs),
                       (''content'',
                        JObj [(''size'', JInt (int (py_len (response_body r)))),
                              (''mimeType'', JStr ''application/octet-stream'')]),
                       (''bodySize'', JInt (int (py_len (response_body r))))])]))))"

definition cli_export_har :: "bool \<Rightarrow> db \<Rightarrow> int \<Rightarrow> error + json" where
  "cli_export_har only_zybooks d limit =
     and_then (sqlite_integer limit) (\<lambda>bound.
       let rows = limit_rows bound
                    (order_by_timestamp_desc d (filter (host_clause_and_params only_zybooks) (requests d)))
       in case build_entries cli_entry rows [] of
            Inl e \<Rightarrow> Inl e
          | Inr entries \<Rightarrow> Inr (har_document ''2.0'' entries))"


section \<open>Example tables\<close>

text \<open>
  Tables and flows for the closed statements below. \<open>dumps_no_headers\<close> is the
  serialiser restricted to flows without header fields:
  \<^verbatim>\<open>json.dumps({})\<close> is the text \<open>{}\<close>.
  \<open>nested_headers\<close> opens one array more than the scanner may,
  \<open>long_integer\<close> is an integer literal one digit longer than the conversion
  allows, the response of \<open>undecodable_flow\<close> has a content that cannot be read,
  and \<open>tie_db\<close> holds two exchanges with the same timestamp.
\<close>

definition quoted :: "string \<Rightarrow> string" where
  "quoted s = CHR 0x22 # s @ [CHR 0x22]"

definition hardened_headers :: string where
  "hardened_headers =
     ''{'' @ quoted ''Strict-Transport-Security'' @ '': '' @ quoted ''max-age=31536000'' @ '', ''
       @ quoted ''X-Content-Type-Options'' @ '': '' @ quoted ''nosniff'' @ '', ''
       @ quoted ''X-Frame-Options'' @ '': '' @ quoted ''DENY'' @ ''}''"

definition hardened_db :: db where
  "hardened_db =
     \<lparr>requests = [mk_row 1 1000 ''GET'' ''https://example.com/'' ''example.com'' ''/'' ''{}'' []
                    (Some 200) hardened_headers ''ok'' (1 / 10) ''https''],
      seq = 1, idx_timestamp = True\<rparr>"

definition truncated_headers :: string where
  "truncated_headers = ''{'' @ quoted ''Host'' @ '': '' @ quoted ''example.com''"

definition corrupt_db :: db where
  "corrupt_db =
     \<lparr>requests = [mk_row 1 1000 ''GET'' ''https://example.com/'' ''example.com'' ''/''
                    truncated_headers []
                    (Some 200) ''{}'' ''ok'' (1 / 10) ''https''],
      seq = 1, idx_timestamp = True\<rparr>"

definition nested_headers :: string where
  "nested_headers = replicate (Suc recursion_limit) (CHR ''['')"

definition long_integer :: string where
  "long_integer = replicate (Suc max_str_digits) (CHR ''1'')"

definition nested_db :: db where
  "nested_db =
     \<lparr>requests = [mk_row 1 1000 ''GET'' ''https://example.com/'' ''example.com'' ''/'' ''{}'' []
                    (Some 200) nested_headers ''ok'' (1 / 10) ''https''],
      seq = 1, idx_timestamp = True\<rparr>"

definition two_db :: db where
  "two_db =
     \<lparr>requests = [mk_row 1 1000 ''GET'' ''http://example.com/login?password=123'' ''example.com''
                    ''/login?password=123'' ''{}'' [] (Some 200) ''{}'' [] (1 / 10) ''http'',
                  mk_row 2 1001 ''GET'' ''https://example.com/'' ''example.com'' ''/'' ''{}'' []
                    (Some 200) ''{}'' ''ok'' (1 / 10) ''https''],
      seq = 2, idx_timestamp = True\<rparr>"

definition tie_db :: "bool \<Rightarrow> db" where
  "tie_db indexed =
     \<lparr>requests = [mk_row 1 1000 ''GET'' ''https://example.com/a'' ''example.com'' ''/a'' ''{}'' []
                    (Some 200) ''{}'' [] (1 / 10) ''https'',
                  mk_row 2 1000 ''GET'' ''https://example.com/b'' ''example.com'' ''/b'' ''{}'' []
                    (Some 200) ''{}'' [] (1 / 10) ''https''],
      seq = 2, idx_timestamp = indexed\<rparr>"

definition dumps_no_headers :: "(string \<times> string) list \<Rightarrow> string" where
  "dumps_no_headers hs = ''{}''"

definition example_request :: "bytes option \<Rightarrow> http_request" where
  "example_request c =
     \<lparr>rq_method = ''POST'', rq_url = ''https://example.com/upload'', rq_host = ''example.com'',
      rq_path = ''/upload'', rq_scheme = ''https'', rq_headers = [], rq_content = Inr c\<rparr>"

definition example_flow :: "bytes option \<Rightarrow> bytes option \<Rightarrow> flow" where
  "example_flow rq rs =
     \<lparr>fl_request = example_request rq,
      fl_response = Some \<lparr>rs_status_code = 200, rs_headers = [], rs_content = Inr rs\<rparr>,
      start_time = None\<rparr>"


section \<open>Proof devices\<close>

text \<open>
  Abbreviations used in the proofs about the decoder and the parser:
  \<open>step_ok\<close> relates one step of the decoder to well-formedness,
  \<open>parse_error\<close> holds of the exceptions \<^verbatim>\<open>json.loads\<close> raises,
  \<open>shrinks\<close> says that a scanner leaves less text than it was given.
\<close>

definition step_ok :: "char \<Rightarrow> bytes \<Rightarrow> bool" where
  "step_ok c s =
     (case utf8_next c s of
        (k, ok) \<Rightarrow>
          0 < k \<and>
          (if ok then well_formed_utf8 (c # s) = well_formed_utf8 (drop k (c # s))
           else \<not> well_formed_utf8 (c # s)))"

definition parse_error :: "error \<Rightarrow> bool" where
  "parse_error e = (e = JSONDecodeError \<or> e = RecursionError \<or> e = ValueError)"

definition shrinks :: "error + (json \<times> string) \<Rightarrow> string \<Rightarrow> bool" where
  "shrinks res s = (case res of Inr (v, r) \<Rightarrow> length r < length s | Inl e \<Rightarrow> True)"

section \<open>The parser consumes its input\<close>

lemma prepend_Inr: "prepend p r = Inr (t, rest) \<longleftrightarrow> (\<exists>t'. r = Inr (t', rest) \<and> t = p @ t')"
  by (auto simp: prepend_def split: sum.splits)

lemma prepend_Inl: "prepend p r = Inl e \<longleftrightarrow> r = Inl e"
  by (auto simp: prepend_def split: sum.splits)

lemma string_step_Emit: "string_step c s = Emit p r \<Longrightarrow> length r \<le> length s"
  by (auto simp: string_step_def unicode_escape_def split: list.splits if_splits option.splits)

lemma string_step_Closing: "string_step c s = Closing r \<Longrightarrow> r = s"
  by (auto simp: string_step_def unicode_escape_def split: list.splits if_splits option.splits)

lemma scanstring_progress: "scanstring s = Inr (t, r) \<Longrightarrow> length r < length s"
proof (induction s arbitrary: t rule: scanstring.induct)
  case 1
  then show ?case by simp
next
  case (2 c s)
  show ?case
  proof (cases "string_step c s")
    case (Closing rest)
    with "2.prems" string_step_Closing [OF Closing] show ?thesis by simp
  next
    case (Emit p rest)
    with "2.prems" obtain t' where "scanstring rest = Inr (t', r)"
      by (auto simp: prepend_Inr)
    from "2.IH" [OF Emit this] string_step_Emit [OF Emit] show ?thesis by simp
  next
    case Bad
    with "2.prems" show ?thesis by simp
  qed
qed

lemma scanstring_error: "scanstring s = Inl e \<Longrightarrow> e = JSONDecodeError"
proof (induction s rule: scanstring.induct)
  case 1
  then show ?case by simp
next
  case (2 c s)
  then show ?case
    by (cases "string_step c s") (auto simp: prepend_Inl)
qed

lemma int_part_progress: "int_part s = Some (ip, r) \<Longrightarrow> length r < length s"
  by (auto simp: int_part_def split: list.splits if_splits
      intro: le_imp_less_Suc length_dropWhile_le)

lemma frac_part_progress: "frac_part s = (fp, r) \<Longrightarrow> length r \<le> length s"
  by (auto simp: frac_part_def split: list.splits if_splits
      intro: le_SucI length_dropWhile_le)

lemma exp_part_progress: "exp_part s = (ex, r) \<Longrightarrow> length r \<le> length s"
  by (auto simp: exp_part_def Let_def split: list.splits if_splits
      intro: le_SucI length_dropWhile_le)

lemma match_number_progress: "match_number s = Inr (v, r) \<Longrightarrow> length r < length s"
proof -
  assume m: "match_number s = Inr (v, r)"
  define s1 where "s1 = (if startswith s ''-'' then tl s else s)"
  from m obtain ip s2 where i: "int_part s1 = Some (ip, s2)"
    by (auto simp: match_number_def Let_def s1_def split: option.splits)
  obtain fp s3 where f: "frac_part s2 = (fp, s3)" by (cases "frac_part s2")
  obtain ex s4 where e: "exp_part s3 = (ex, s4)" by (cases "exp_part s3")
  from m i f e have "r = s4"
    by (auto simp: match_number_def Let_def s1_def split: option.splits if_splits)
  moreover have "length s1 \<le> length s" by (simp add: s1_def)
  ultimately show ?thesis
    using int_part_progress [OF i] frac_part_progress [OF f] exp_part_progress [OF e]
    by simp
qed

lemma match_number_error:
  "match_number s = Inl e \<Longrightarrow> e = JSONDecodeError \<or> e = ValueError"
  by (auto simp: match_number_def Let_def split: option.splits prod.splits if_splits)

lemma skip_ws_length: "length (skip_ws s) \<le> length s"
  by (simp add: skip_ws_def length_dropWhile_le)

lemma skip_ws_Cons: "skip_ws s = c # r \<Longrightarrow> length r < length s"
  using skip_ws_length [of s] by simp

lemma startswith_length: "startswith s p \<Longrightarrow> length p \<le> length s"
  by (induction s p rule: startswith.induct) simp_all

lemma shrinks_Inl [simp]: "shrinks (Inl e) s"
  by (simp add: shrinks_def)

lemma shrinks_Inr [simp]: "shrinks (Inr (v, r)) s \<longleftrightarrow> length r < length s"
  by (simp add: shrinks_def)

lemma shrinks_weaken: "shrinks res t \<Longrightarrow> length t \<le> length s \<Longrightarrow> shrinks res s"
  by (auto simp: shrinks_def split: sum.splits)

lemma shrinks_if:
  "(b \<Longrightarrow> shrinks x s) \<Longrightarrow> (\<not> b \<Longrightarrow> shrinks y s) \<Longrightarrow> shrinks (if b then x else y) s"
  by simp

lemma scan_scalar_progress: "shrinks (scan_scalar s) s"
proof (cases s)
  case Nil
  then show ?thesis by (simp add: scan_scalar_def)
next
  case (Cons c r)
  have str: "shrinks (case scanstring r of Inl e \<Rightarrow> Inl e
                      | Inr (t, r') \<Rightarrow> Inr (JStr t, r')) (c # r)"
  proof (cases "scanstring r")
    case (Inl e)
    then show ?thesis by simp
  next
    case (Inr p)
    obtain t r' where p: "p = (t, r')" by (cases p)
    have "length r' < length r" using Inr p by (auto dest: scanstring_progress)
    with Inr p show ?thesis by simp
  qed
  have num: "shrinks (match_number (c # r)) (c # r)"
  proof (cases "match_number (c # r)")
    case (Inl e)
    then show ?thesis by simp
  next
    case (Inr vr)
    obtain v r' where vr: "vr = (v, r')" by (cases vr)
    from match_number_progress [of "c # r" v r'] Inr vr show ?thesis
      by (simp del: length_Cons)
  qed
  have lit: "shrinks (Inr (v, drop m (c # r))) (c # r)" if "0 < m" for v m
    using that by simp
  show ?thesis
    unfolding Cons scan_scalar_def list.case
    by (intro shrinks_if) (rule str num lit | simp)+
qed

lemma scan_scalar_error:
  "scan_scalar s = Inl e \<Longrightarrow> e = JSONDecodeError \<or> e = ValueError"
  by (auto simp: scan_scalar_def split: list.splits if_splits sum.splits
      dest: scanstring_error match_number_error)

lemma array_loop_progress:
  assumes scan: "\<And>t. shrinks (scan t) t"
  shows "shrinks (array_loop scan k s acc) s"
proof (induction k arbitrary: s acc)
  case 0
  show ?case by simp
next
  case (Suc k)
  show ?case
  proof (cases "scan s")
    case (Inl e)
    then show ?thesis by simp
  next
    case (Inr p)
    obtain v r where p: "p = (v, r)" by (cases p)
    have r: "length r < length s"
      using scan [of s] Inr p by simp
    show ?thesis
    proof (cases "skip_ws r")
      case Nil
      with Inr p show ?thesis by simp
    next
      case (Cons c r1)
      have r1: "length r1 < length r" using Cons by (rule skip_ws_Cons)
      have "length (skip_ws r1) \<le> length s"
        using skip_ws_length [of r1] r r1 by simp
      from shrinks_weaken [OF Suc.IH this]
      have "shrinks (array_loop scan k (skip_ws r1) (acc @ [v])) s" .
      with Inr p Cons r r1 show ?thesis by simp
    qed
  qed
qed

lemma array_loop_fuel:
  assumes scan: "\<And>t. shrinks (scan t) t"
  shows "length s < k \<Longrightarrow> length s < k' \<Longrightarrow> array_loop scan k s acc = array_loop scan k' s acc"
proof (induction k arbitrary: k' s acc)
  case 0
  then show ?case by simp
next
  case (Suc k)
  from Suc.prems obtain j where k': "k' = Suc j" by (cases k') auto
  show ?case
  proof (cases "scan s")
    case (Inl e)
    then show ?thesis by (simp add: k')
  next
    case (Inr p)
    obtain v r where p: "p = (v, r)" by (cases p)
    have r: "length r < length s"
      using scan [of s] Inr p by simp
    show ?thesis
    proof (cases "skip_ws r")
      case Nil
      with Inr p show ?thesis by (simp add: k')
    next
      case (Cons c r1)
      have r1: "length r1 < length r" using Cons by (rule skip_ws_Cons)
      have "length (skip_ws r1) < k" "length (skip_ws r1) < j"
        using skip_ws_length [of r1] r r1 Suc.prems k' by simp_all
      from Suc.IH [OF this]
      have "array_loop scan k (skip_ws r1) (acc @ [v]) = array_loop scan j (skip_ws r1) (acc @ [v])" .
      with Inr p Cons show ?thesis by (simp add: k')
    qed
  qed
qed

lemma array_loop_error:
  assumes scan: "\<And>t e. scan t = Inl e \<Longrightarrow> P e" and d: "P JSONDecodeError"
  shows "array_loop scan k s acc = Inl e \<Longrightarrow> P e"
proof (induction k arbitrary: s acc)
  case 0
  with d show ?case by simp
next
  case (Suc k)
  then show ?case
    by (auto simp: d split: sum.splits list.splits if_splits dest: scan)
qed

lemma object_loop_progress:
  assumes scan: "\<And>t. shrinks (scan t) t"
  shows "shrinks (object_loop scan k s acc) s"
proof (induction k arbitrary: s acc)
  case 0
  show ?case by simp
next
  case (Suc k)
  show ?case
  proof (cases s)
    case Nil
    then show ?thesis by simp
  next
    case (Cons q r)
    show ?thesis
    proof (cases "q = CHR 0x22")
      case False
      with Cons show ?thesis by simp
    next
      case True
      show ?thesis
      proof (cases "scanstring r")
        case (Inl e)
        with Cons True show ?thesis by simp
      next
        case (Inr p)
        obtain key r1 where p: "p = (key, r1)" by (cases p)
        have r1: "length r1 < length r"
          using Inr p by (auto dest: scanstring_progress)
        show ?thesis
        proof (cases "skip_ws r1")
          case Nil
          with Cons True Inr p show ?thesis by simp
        next
          case c: (Cons c r2)
          have r2: "length r2 < length r1" using c by (rule skip_ws_Cons)
          show ?thesis
          proof (cases "c = CHR '':''")
            case False
            with Cons True Inr p c show ?thesis by simp
          next
            case colon: True
            have k2: "length (skip_ws r2) \<le> length r2" by (rule skip_ws_length)
            show ?thesis
            proof (cases "scan (skip_ws r2)")
              case (Inl e)
              with Cons True Inr p c colon show ?thesis by simp
            next
              case v: (Inr pv)
              obtain v r3 where pv: "pv = (v, r3)" by (cases pv)
              have r3: "length r3 < length (skip_ws r2)"
                using scan [of "skip_ws r2"] v pv by simp
              show ?thesis
              proof (cases "skip_ws r3")
                case Nil
                with Cons True Inr p c colon v pv show ?thesis by simp
              next
                case d: (Cons d r4)
                have r4: "length r4 < length r3" using d by (rule skip_ws_Cons)
                have "length (skip_ws r4) \<le> length s"
                  using skip_ws_length [of r4] Cons r1 r2 k2 r3 r4 by simp
                from shrinks_weaken [OF Suc.IH this]
                have rec: "shrinks (object_loop scan k (skip_ws r4) (acc @ [(key, v)])) s" .
                have end_ok: "length r4 < length s"
                  using Cons r1 r2 k2 r3 r4 by simp
                show ?thesis
                  using Cons True Inr p c colon v pv d rec end_ok by simp
              qed
            qed
          qed
        qed
      qed
    qed
  qed
qed

lemma object_loop_fuel:
  assumes scan: "\<And>t. shrinks (scan t) t"
  shows "length s < k \<Longrightarrow> length s < k' \<Longrightarrow> object_loop scan k s acc = object_loop scan k' s acc"
proof (induction k arbitrary: k' s acc)
  case 0
  then show ?case by simp
next
  case (Suc k)
  from Suc.prems obtain j where k': "k' = Suc j" by (cases k') auto
  show ?case
  proof (cases s)
    case Nil
    then show ?thesis by (simp add: k')
  next
    case (Cons q r)
    show ?thesis
    proof (cases "scanstring r")
      case (Inl e)
      with Cons show ?thesis by (simp add: k')
    next
      case (Inr p)
      obtain key r1 where p: "p = (key, r1)" by (cases p)
      have r1: "length r1 < length r"
        using Inr p by (auto dest: scanstring_progress)
      show ?thesis
      proof (cases "skip_ws r1")
        case Nil
        with Cons Inr p show ?thesis by (simp add: k')
      next
        case c: (Cons c r2)
        have r2: "length r2 < length r1" using c by (rule skip_ws_Cons)
        have k2: "length (skip_ws r2) \<le> length r2" by (rule skip_ws_length)
        show ?thesis
        proof (cases "scan (skip_ws r2)")
          case (Inl e)
          with Cons Inr p c show ?thesis by (simp add: k')
        next
          case v: (Inr pv)
          obtain v r3 where pv: "pv = (v, r3)" by (cases pv)
          have r3: "length r3 < length (skip_ws r2)"
            using scan [of "skip_ws r2"] v pv by simp
          show ?thesis
          proof (cases "skip_ws r3")
            case Nil
            with Cons Inr p c v pv show ?thesis by (simp add: k')
          next
            case d: (Cons d r4)
            have r4: "length r4 < length r3" using d by (rule skip_ws_Cons)
            have "length (skip_ws r4) < k" "length (skip_ws r4) < j"
              using skip_ws_length [of r4] Cons r1 r2 k2 r3 r4 Suc.prems k' by simp_all
            from Suc.IH [OF this]
            have "object_loop scan k (skip_ws r4) (acc @ [(key, v)])
                    = object_loop scan j (skip_ws r4) (acc @ [(key, v)])" .
            with Cons Inr p c v pv d show ?thesis by (simp add: k')
          qed
        qed
      qed
    qed
  qed
qed

lemma object_loop_error:
  assumes scan: "\<And>t e. scan t = Inl e \<Longrightarrow> P e" and d: "P JSONDecodeError"
  shows "object_loop scan k s acc = Inl e \<Longrightarrow> P e"
proof (induction k arbitrary: s acc)
  case 0
  with d show ?case by simp
next
  case (Suc k)
  then show ?case
    by (auto simp: d split: sum.splits list.splits if_splits dest: scan scanstring_error)
qed

lemma parse_array_progress:
  assumes scan: "\<And>t. shrinks (scan t) t"
  shows "shrinks (parse_array scan r) (c # r)"
proof -
  have k: "length (skip_ws r) \<le> length (c # r)"
    using skip_ws_length [of r] by simp
  have loop: "shrinks (array_loop scan (Suc (length (skip_ws r))) (skip_ws r) []) (c # r)"
    by (rule shrinks_weaken [OF array_loop_progress [OF scan] k])
  have closing: "shrinks (Inr (JArr [], tl (skip_ws r))) (c # r)" if "startswith (skip_ws r) '']''"
    using startswith_length [OF that] k by (cases "skip_ws r") simp_all
  show ?thesis
    unfolding parse_array_def Let_def
    by (intro shrinks_if) (erule closing | rule loop)+
qed

lemma parse_object_progress:
  assumes scan: "\<And>t. shrinks (scan t) t"
  shows "shrinks (parse_object scan r) (c # r)"
proof -
  have k: "length (skip_ws r) \<le> length (c # r)"
    using skip_ws_length [of r] by simp
  have loop: "shrinks (object_loop scan (Suc (length (skip_ws r))) (skip_ws r) []) (c # r)"
    by (rule shrinks_weaken [OF object_loop_progress [OF scan] k])
  have closing: "shrinks (Inr (JObj [], tl (skip_ws r))) (c # r)" if "startswith (skip_ws r) ''}''"
    using startswith_length [OF that] k by (cases "skip_ws r") simp_all
  show ?thesis
    unfolding parse_object_def Let_def
    by (intro shrinks_if) (erule closing | rule loop)+
qed

lemma startswith_Cons: "startswith s [c] \<Longrightarrow> s = c # tl s"
  by (cases s) simp_all

lemma scan_once_progress: "shrinks (scan_once n s) s"
proof (induction n arbitrary: s)
  case 0
  show ?case by (simp add: scan_scalar_progress)
next
  case (Suc n)
  have obj: "shrinks (parse_object (\<lambda>t. scan_once n t) (tl s)) s" if "startswith s ''{''"
    using parse_object_progress [of "\<lambda>t. scan_once n t" "tl s" "CHR ''{''"] Suc
      startswith_Cons [OF that] by simp
  have arr: "shrinks (parse_array (\<lambda>t. scan_once n t) (tl s)) s" if "startswith s ''[''"
    using parse_array_progress [of "\<lambda>t. scan_once n t" "tl s" "CHR ''[''"] Suc
      startswith_Cons [OF that] by simp
  show ?case
    unfolding scan_once.simps
    by (intro shrinks_if) (erule obj arr | rule scan_scalar_progress)+
qed

lemma scan_once_error: "scan_once n s = Inl e \<Longrightarrow> parse_error e"
proof (induction n arbitrary: s e)
  case 0
  then show ?case
    by (auto simp: parse_error_def split: if_splits dest: scan_scalar_error)
next
  case (Suc n)
  have d: "parse_error JSONDecodeError" by (simp add: parse_error_def)
  have scalar: "parse_error e" if "scan_scalar s = Inl e"
    using scan_scalar_error [OF that] by (auto simp: parse_error_def)
  have obj: "parse_error e" if "parse_object (scan_once n) (tl s) = Inl e"
  proof (cases "startswith (skip_ws (tl s)) ''}''")
    case True
    with that show ?thesis by (simp add: parse_object_def Let_def)
  next
    case False
    with that have "object_loop (scan_once n) (Suc (length (skip_ws (tl s)))) (skip_ws (tl s)) [] = Inl e"
      by (simp add: parse_object_def Let_def)
    moreover have "\<And>t e. scan_once n t = Inl e \<Longrightarrow> parse_error e"
      by (rule Suc.IH)
    ultimately show ?thesis
      using d by (rule object_loop_error [rotated 2])
  qed
  have arr: "parse_error e" if "parse_array (scan_once n) (tl s) = Inl e"
  proof (cases "startswith (skip_ws (tl s)) '']''")
    case True
    with that show ?thesis by (simp add: parse_array_def Let_def)
  next
    case False
    with that have "array_loop (scan_once n) (Suc (length (skip_ws (tl s)))) (skip_ws (tl s)) [] = Inl e"
      by (simp add: parse_array_def Let_def)
    moreover have "\<And>t e. scan_once n t = Inl e \<Longrightarrow> parse_error e"
      by (rule Suc.IH)
    ultimately show ?thesis
      using d by (rule array_loop_error [rotated 2])
  qed
  from Suc.prems show ?case
    by (auto split: if_splits intro: scalar obj arr)
qed

lemma json_loads_error:
  "json_loads s = Inl e \<Longrightarrow> e = JSONDecodeError \<or> e = RecursionError \<or> e = ValueError"
  by (auto simp: json_loads_def split: if_splits sum.splits prod.splits
      dest: scan_once_error [unfolded parse_error_def])

lemma parse_array_fuel:
  "length (skip_ws r) < k \<Longrightarrow> \<not> startswith (skip_ws r) '']'' \<Longrightarrow>
     parse_array (\<lambda>t. scan_once n t) r = array_loop (\<lambda>t. scan_once n t) k (skip_ws r) []"
  using array_loop_fuel [of "\<lambda>t. scan_once n t" "skip_ws r" "Suc (length (skip_ws r))" k "[]"]
  by (simp add: parse_array_def Let_def scan_once_progress)

lemma parse_object_fuel:
  "length (skip_ws r) < k \<Longrightarrow> \<not> startswith (skip_ws r) ''}'' \<Longrightarrow>
     parse_object (\<lambda>t. scan_once n t) r = object_loop (\<lambda>t. scan_once n t) k (skip_ws r) []"
  using object_loop_fuel [of "\<lambda>t. scan_once n t" "skip_ws r" "Suc (length (skip_ws r))" k "[]"]
  by (simp add: parse_object_def Let_def scan_once_progress)

section \<open>The analysis of one exchange\<close>

lemma and_then_Inr: "and_then r f = Inr y \<longleftrightarrow> (\<exists>x. r = Inr x \<and> f x = Inr y)"
  by (cases r) (simp_all add: and_then_def)

lemma and_then_Inl_simp [simp]: "and_then (Inl e) f = Inl e"
  by (simp add: and_then_def)

lemma and_then_Inr_simp [simp]: "and_then (Inr x) f = f x"
  by (simp add: and_then_def)

lemma loads_empty_object: "json_loads ''{}'' = Inr (JObj [])"
  by code_simp

lemma loads_hardened:
  "json_loads hardened_headers =
     Inr (JObj [(''Strict-Transport-Security'', JStr ''max-age=31536000''),
                (''X-Content-Type-Options'', JStr ''nosniff''),
                (''X-Frame-Options'', JStr ''DENY'')])"
  by code_simp

lemma loads_truncated:
  "json_loads truncated_headers = Inl JSONDecodeError"
  by code_simp

lemma scan_once_nested:
  "scan_once n (replicate (Suc n) (CHR ''['') @ s) = Inl RecursionError"
proof (induction n)
  case 0
  show ?case by simp
next
  case (Suc n)
  let ?rest = "replicate (Suc n) (CHR ''['') @ s"
  have ws: "skip_ws ?rest = ?rest"
    by (simp add: skip_ws_def is_ws_def)
  have "parse_array (scan_once n) ?rest = Inl RecursionError"
    unfolding parse_array_def Let_def ws
    using Suc by simp
  then show ?case by simp
qed

lemma loads_nested: "json_loads nested_headers = Inl RecursionError"
proof -
  have "skip_ws nested_headers = replicate (Suc recursion_limit) (CHR ''['') @ []"
    by (simp add: nested_headers_def skip_ws_def is_ws_def)
  then have "scan_once recursion_limit (skip_ws nested_headers) = Inl RecursionError"
    by (simp only: scan_once_nested)
  then show ?thesis
    by (simp add: json_loads_def nested_headers_def)
qed

lemma takeWhile_replicate: "P x \<Longrightarrow> takeWhile P (replicate n x) = replicate n x"
  by (induction n) simp_all

lemma dropWhile_replicate: "P x \<Longrightarrow> dropWhile P (replicate n x) = []"
  by (induction n) simp_all

lemma match_number_ones:
  "max_str_digits < n \<Longrightarrow> match_number (replicate n (CHR ''1'')) = Inl ValueError"
proof -
  assume n: "max_str_digits < n"
  then obtain m where m: "n = Suc m" by (cases n) auto
  have d: "is_digit (CHR ''1'')"
    by (simp add: is_digit_def digit_val_def)
  have i: "int_part (replicate n (CHR ''1'')) = Some (replicate n (CHR ''1''), [])"
    by (simp add: m int_part_def d takeWhile_replicate dropWhile_replicate)
  have s: "\<not> startswith (replicate n (CHR ''1'')) ''-''"
    by (simp add: m)
  show ?thesis
    unfolding match_number_def Let_def i
    using n s by (simp add: i frac_part_def exp_part_def)
qed

lemma scan_once_scalar:
  "\<not> startswith s ''{'' \<Longrightarrow> \<not> startswith s ''['' \<Longrightarrow> scan_once n s = scan_scalar s"
  by (cases n) simp_all

lemma loads_long_integer: "json_loads long_integer = Inl ValueError"
proof -
  have "match_number long_integer = Inl ValueError"
    unfolding long_integer_def by (rule match_number_ones) simp
  moreover have "scan_scalar long_integer = match_number long_integer"
    by (simp add: scan_scalar_def long_integer_def)
  ultimately have "scan_scalar long_integer = Inl ValueError"
    by (simp only:)
  moreover have "skip_ws long_integer = long_integer"
    by (simp add: skip_ws_def is_ws_def long_integer_def)
  moreover have "\<not> startswith long_integer ''{''" "\<not> startswith long_integer ''[''"
    "\<not> startswith long_integer [CHR 0xEF, CHR 0xBB, CHR 0xBF]"
    by (simp_all add: long_integer_def)
  ultimately show ?thesis
    by (simp add: json_loads_def scan_once_scalar)
qed

lemmas analysis_defs =
  analyze_request_def mk_row_def select_by_id_def find_by_id_def sqlite_integer_def
  check_security_def check_performance_def check_best_practices_def generate_summary_def
  py_get_def py_get_default_def py_keys_def py_startswith_def py_len_def truthy_opt_def
  lower_def upper_def lower_special_def upper_special_def lower_char_def upper_char_def Let_def

lemma login_analysis:
  "analyze_request login_db 1 =
     Inr \<lparr>request_id = 1, security_score = 50,
          vulnerabilities = [SensitiveDataInUrl, MissingHSTS, MissingXContentTypeOptions,
                             MissingXFrameOptions, InsecureHttp],
          recommendations = [AddCacheHeaders, EnableCompression],
          summary = \<lparr>sm_method = ''GET'', sm_url = ''http://example.com/login?password=123'',
                      sm_status = Some (Succeeded, 200), sm_duration_ms = 100,
                      sm_issues = 5, sm_suggestions = 2\<rparr>,
          insights = \<lparr>in_method = ''GET'', in_status_code = Some 200, in_duration_ms = 100,
                       in_has_auth = False, in_content_type = JStr ''unknown'',
                       in_size_bytes = 0\<rparr>\<rparr>"
  by (simp add: analysis_defs login_db_def loads_empty_object)

lemma score_formula:
  "analyze_request d i = Inr a \<Longrightarrow>
     security_score a = max 0 (100 - 10 * real (length (vulnerabilities a)))"
  unfolding analyze_request_def
  by (auto simp: and_then_Inr Let_def split: sum.splits option.splits)

lemma returns_and_then:
  "\<exists>x. r = Inr x \<Longrightarrow> (\<And>x. \<exists>y. f x = Inr y) \<Longrightarrow> \<exists>y. and_then r f = Inr y"
  by (auto simp: and_then_def)

lemma check_security_returns:
  assumes "list_all is_str (map snd hs)"
  shows "\<exists>xs. check_security req (JObj hs) (JObj rs) = Inr xs"
proof -
  have v: "\<exists>s. v = JStr s" if "map_of hs k = Some v" for k v
  proof -
    from that have "(k, v) \<in> set hs" by (rule map_of_SomeD)
    then have "is_str v" using assms by (force simp: list_all_iff)
    then show ?thesis by (cases v) (simp_all add: is_str_def)
  qed
  have auth: "\<exists>b. and_then (py_get_default (JObj hs) ''authorization'' (JStr [])) (\<lambda>inner.
                 and_then (py_get_default (JObj hs) ''Authorization'' inner) (\<lambda>auth_value.
                 py_startswith auth_value ''Basic '')) = Inr b"
    by (auto simp: py_get_default_def py_startswith_def dest: v split: option.splits)
  show ?thesis
    unfolding check_security_def Let_def
    apply (intro returns_and_then)
         apply (simp_all add: py_get_def py_keys_def split del: if_split)
    using auth by auto
qed

lemma check_best_practices_returns:
  "\<exists>xs. check_best_practices req h (JObj rs) = Inr xs"
  unfolding check_best_practices_def Let_def
  apply (intro returns_and_then)
     apply (simp_all add: py_get_def py_keys_def split del: if_split)
  apply (auto simp: and_then_def py_get_def)
  done

lemma analyze_request_returns:
  assumes "select_by_id d i = Inr (Some req)"
    and "json_loads (headers req) = Inr (JObj hs)"
    and "list_all is_str (map snd hs)"
    and "json_loads (response_headers req) = Inr (JObj rs)"
  shows "\<exists>a. analyze_request d i = Inr a"
proof -
  obtain xs where xs: "check_security req (JObj hs) (JObj rs) = Inr xs"
    using check_security_returns [OF assms(3)] by blast
  obtain ys where ys: "check_best_practices req (JObj hs) (JObj rs) = Inr ys"
    using check_best_practices_returns by blast
  show ?thesis
    by (simp add: analyze_request_def assms xs ys Let_def py_keys_def py_get_default_def)
qed





text \<open>
  Claim C1. Whenever \<open>analyze_request\<close> returns, the security score is 100 minus 10
  points for each security finding it emits, floored at 0. It returns for every row whose
  two header columns hold JSON objects, the request headers with text values, which is what
  the hooks store. In the login scenario (GET http://example.com/login?password=123 over
  http, no response headers) the findings are the sensitive URL, the three missing headers
  and the insecure protocol, and the score is 50.
\<close>

theorem analyze_request_score:
  "(analyze_request d i = Inr a \<longrightarrow>
      security_score a = max 0 (100 - 10 * real (length (vulnerabilities a))))
   \<and> (select_by_id d i = Inr (Some req) \<and> json_loads (headers req) = Inr (JObj hs)
        \<and> list_all is_str (map snd hs) \<and> json_loads (response_headers req) = Inr (JObj rs)
      \<longrightarrow> (\<exists>r. analyze_request d i = Inr r))
   \<and> map_sum id vulnerabilities (analyze_request login_db 1) =
        Inr [SensitiveDataInUrl, MissingHSTS, MissingXContentTypeOptions,
             MissingXFrameOptions, InsecureHttp]
   \<and> map_sum id security_score (analyze_request login_db 1) = Inr 50"
  using score_formula [of d i a] analyze_request_returns [of d i req hs rs]
  by (simp add: login_analysis)

text \<open>
  Claim C1, witness: the row of the login scenario satisfies the hypotheses, so its analysis
  returns and the score obeys the formula.
\<close>

theorem analyze_request_score_witness:
  "\<exists>r. analyze_request login_db 1 = Inr r
      \<and> security_score r = max 0 (100 - 10 * real (length (vulnerabilities r)))
      \<and> length (vulnerabilities r) = 5 \<and> security_score r = 50"
proof -
  let ?row = "mk_row 1 1000 ''GET'' ''http://example.com/login?password=123'' ''example.com''
                ''/login?password=123'' ''{}'' [] (Some 200) ''{}'' [] (1 / 10) ''http''"
  have sel: "select_by_id login_db 1 = Inr (Some ?row)"
    by (simp add: select_by_id_def find_by_id_def sqlite_integer_def login_db_def mk_row_def)
  have h: "json_loads (headers ?row) = Inr (JObj [])" "json_loads (response_headers ?row) = Inr (JObj [])"
    by (simp_all add: mk_row_def loads_empty_object)
  have "\<exists>r. analyze_request login_db 1 = Inr r"
    using analyze_request_score [of login_db 1 _ ?row "[]" "[]"] sel h by simp
  then obtain r where r: "analyze_request login_db 1 = Inr r" ..
  have "security_score r = max 0 (100 - 10 * real (length (vulnerabilities r)))"
    using analyze_request_score [of login_db 1 r] r by simp
  moreover have "length (vulnerabilities r) = 5" "security_score r = 50"
    using r by (auto simp: login_analysis)
  ultimately show ?thesis using r by blast
qed

text \<open>
  Claim C2 says that a response header present under any letter-casing gets no
  missing-header finding. The code breaks it: for a response over https that carries
  Strict-Transport-Security, X-Content-Type-Options and X-Frame-Options in their usual
  spelling, the lookups under the lower-case names miss all three and the three findings are
  emitted. The rule for the authorization header and the rule for content-encoding, in the
  same file, compare lower-cased keys.
\<close>

theorem check_security_misses_canonical_case:
  "map_sum id vulnerabilities (analyze_request hardened_db 1) =
     Inr [MissingHSTS, MissingXContentTypeOptions, MissingXFrameOptions]"
  by (simp add: analysis_defs hardened_db_def loads_empty_object loads_hardened)

text \<open>
  Claim C5, as stated, fails: for a row whose headers column is cut off in the middle of an
  object, \<open>analyze_request\<close> raises the parse error instead of returning an analysis.
\<close>

theorem analyze_request_malformed_counterexample:
  "analyze_request corrupt_db 1 = Inl JSONDecodeError"
  by (simp add: analyze_request_def corrupt_db_def mk_row_def select_by_id_def find_by_id_def
      sqlite_integer_def loads_truncated)

text \<open>
  Claim C5, amended. For every stored exchange whose headers or response_headers column
  \<^verbatim>\<open>json.loads\<close> does not parse, \<open>analyze_request\<close> raises to its
  caller the exception that \<^verbatim>\<open>json.loads\<close> raised and returns no analysis:
  the exception of the headers column if that one fails, else the exception of the
  response_headers column. It is \<open>JSONDecodeError\<close>, or \<open>RecursionError\<close>
  or \<open>ValueError\<close> when the text reaches the interpreter's limit on the depth of
  nesting or on the digits of an integer.
\<close>

theorem analyze_request_propagates_parse_failure:
  assumes "select_by_id d i = Inr (Some req)"
  shows "(json_loads (headers req) = Inl e \<longrightarrow> analyze_request d i = Inl e)
       \<and> (json_loads (headers req) = Inr h \<and> json_loads (response_headers req) = Inl e
            \<longrightarrow> analyze_request d i = Inl e)
       \<and> (isl (json_loads (headers req)) \<or> isl (json_loads (response_headers req))
            \<longrightarrow> (\<exists>x. analyze_request d i = Inl x
                      \<and> (x = JSONDecodeError \<or> x = RecursionError \<or> x = ValueError)))"
proof (intro conjI impI)
  assume "json_loads (headers req) = Inl e"
  with assms show "analyze_request d i = Inl e"
    by (simp add: analyze_request_def)
next
  assume "json_loads (headers req) = Inr h \<and> json_loads (response_headers req) = Inl e"
  with assms show "analyze_request d i = Inl e"
    by (simp add: analyze_request_def)
next
  assume bad: "isl (json_loads (headers req)) \<or> isl (json_loads (response_headers req))"
  show "\<exists>x. analyze_request d i = Inl x
          \<and> (x = JSONDecodeError \<or> x = RecursionError \<or> x = ValueError)"
  proof (cases "json_loads (headers req)")
    case (Inl x)
    with json_loads_error [OF Inl] assms show ?thesis
      by (simp add: analyze_request_def)
  next
    case (Inr hs)
    with bad obtain x where x: "json_loads (response_headers req) = Inl x"
      by (cases "json_loads (response_headers req)") auto
    with json_loads_error [OF x] Inr assms show ?thesis
      by (simp add: analyze_request_def)
  qed
qed

text \<open>
  Claim C5, witness: the row with the truncated headers column, and a row whose
  response_headers column is nested too deep.
\<close>

theorem analyze_request_propagates_parse_failure_witness:
  "select_by_id corrupt_db 1 = Inr (Some (hd (requests corrupt_db)))
   \<and> json_loads (headers (hd (requests corrupt_db))) = Inl JSONDecodeError
   \<and> analyze_request corrupt_db 1 = Inl JSONDecodeError
   \<and> select_by_id nested_db 1 = Inr (Some (hd (requests nested_db)))
   \<and> json_loads (headers (hd (requests nested_db))) = Inr (JObj [])
   \<and> json_loads (response_headers (hd (requests nested_db))) = Inl RecursionError
   \<and> analyze_request nested_db 1 = Inl RecursionError"
proof -
  have sel: "select_by_id corrupt_db 1 = Inr (Some (hd (requests corrupt_db)))"
    by (simp add: select_by_id_def find_by_id_def sqlite_integer_def corrupt_db_def mk_row_def)
  have bad: "json_loads (headers (hd (requests corrupt_db))) = Inl JSONDecodeError"
    by (simp add: corrupt_db_def mk_row_def loads_truncated)
  have sel': "select_by_id nested_db 1 = Inr (Some (hd (requests nested_db)))"
    by (simp add: select_by_id_def find_by_id_def sqlite_integer_def nested_db_def mk_row_def)
  have ok: "json_loads (headers (hd (requests nested_db))) = Inr (JObj [])"
    by (simp add: nested_db_def mk_row_def loads_empty_object)
  have deep: "json_loads (response_headers (hd (requests nested_db))) = Inl RecursionError"
    by (simp add: nested_db_def mk_row_def loads_nested)
  from analyze_request_propagates_parse_failure [OF sel, of JSONDecodeError]
    analyze_request_propagates_parse_failure [OF sel', of RecursionError "JObj []"]
    sel bad sel' ok deep
  show ?thesis by simp
qed



section \<open>The decoder\<close>

lemma length_utf8_ignore: "length (utf8_ignore s) \<le> length s"
proof (induction s rule: utf8_ignore.induct)
  case 1
  then show ?case by simp
next
  case (2 c s)
  obtain k ok where n: "utf8_next c s = (k, ok)" by (cases "utf8_next c s")
  have "length (utf8_ignore (drop k (c # s))) \<le> length (drop k (c # s))"
    using "2.IH" n by simp
  then show ?case
    using n by (cases ok) (simp_all del: drop_Suc_Cons take_Suc_Cons length_drop, simp_all)
qed

lemmas step_defs = step_ok_def utf8_next_def tail_byte_def

lemma step_ascii: "byte c < 0x80 \<Longrightarrow> step_ok c s"
  by (auto simp: step_defs split: list.split)

lemma step_stray: "0x80 \<le> byte c \<Longrightarrow> byte c < 0xC2 \<Longrightarrow> step_ok c s"
  by (auto simp: step_defs split: list.split)

lemma step_two: "0xC2 \<le> byte c \<Longrightarrow> byte c < 0xE0 \<Longrightarrow> step_ok c s"
  by (auto simp: step_defs split: list.split)

lemma step_e0: "byte c = 0xE0 \<Longrightarrow> step_ok c s"
  by (auto simp: step_defs split: list.split)

lemma step_e1: "0xE1 \<le> byte c \<Longrightarrow> byte c \<le> 0xEC \<Longrightarrow> step_ok c s"
  by (auto simp: step_defs split: list.split)

lemma step_ed: "byte c = 0xED \<Longrightarrow> step_ok c s"
  by (auto simp: step_defs split: list.split)

lemma step_ee: "0xEE \<le> byte c \<Longrightarrow> byte c \<le> 0xEF \<Longrightarrow> step_ok c s"
  by (auto simp: step_defs split: list.split)

lemma step_f0: "byte c = 0xF0 \<Longrightarrow> step_ok c s"
  by (auto simp: step_defs split: list.split)

lemma step_f1: "0xF1 \<le> byte c \<Longrightarrow> byte c \<le> 0xF3 \<Longrightarrow> step_ok c s"
  by (auto simp: step_defs split: list.split)

lemma step_f4: "byte c = 0xF4 \<Longrightarrow> step_ok c s"
  by (auto simp: step_defs split: list.split)

lemma step_high: "0xF5 \<le> byte c \<Longrightarrow> step_ok c s"
  by (auto simp: step_defs split: list.split)

lemma step_ok_all: "step_ok c s"
proof -
  consider "byte c < 0x80" | "0x80 \<le> byte c \<and> byte c < 0xC2" | "0xC2 \<le> byte c \<and> byte c < 0xE0"
    | "byte c = 0xE0" | "0xE1 \<le> byte c \<and> byte c \<le> 0xEC" | "byte c = 0xED"
    | "0xEE \<le> byte c \<and> byte c \<le> 0xEF" | "byte c = 0xF0" | "0xF1 \<le> byte c \<and> byte c \<le> 0xF3"
    | "byte c = 0xF4" | "0xF5 \<le> byte c"
    by linarith
  then show ?thesis
    by cases (simp_all add: step_ascii step_stray step_two step_e0 step_e1 step_ed step_ee
        step_f0 step_f1 step_f4 step_high)
qed

lemma utf8_ignore_identity_iff: "utf8_ignore s = s \<longleftrightarrow> well_formed_utf8 s"
proof (induction s rule: utf8_ignore.induct)
  case 1
  then show ?case by simp
next
  case (2 c s)
  obtain k ok where n: "utf8_next c s = (k, ok)" by (cases "utf8_next c s")
  have k: "0 < k" using step_ok_all [of c s] n by (simp add: step_ok_def)
  have ih: "utf8_ignore (drop k (c # s)) = drop k (c # s) \<longleftrightarrow> well_formed_utf8 (drop k (c # s))"
    using "2.IH" n by simp
  show ?case
  proof (cases ok)
    case True
    have wf: "well_formed_utf8 (c # s) = well_formed_utf8 (drop k (c # s))"
      using step_ok_all [of c s] n True by (simp add: step_ok_def)
    have "utf8_ignore (c # s) = take k (c # s) @ utf8_ignore (drop k (c # s))"
      using n True by simp
    moreover have "c # s = take k (c # s) @ drop k (c # s)"
      by (simp del: take_Suc_Cons drop_Suc_Cons)
    ultimately have "utf8_ignore (c # s) = c # s \<longleftrightarrow> utf8_ignore (drop k (c # s)) = drop k (c # s)"
      by (metis same_append_eq)
    with ih wf show ?thesis by simp
  next
    case False
    have nwf: "\<not> well_formed_utf8 (c # s)"
      using step_ok_all [of c s] n False by (simp add: step_ok_def)
    have "utf8_ignore (c # s) = utf8_ignore (drop k (c # s))"
      using n False by simp
    moreover have "length (utf8_ignore (drop k (c # s))) < length (c # s)"
      using length_utf8_ignore [of "drop k (c # s)"] k by simp
    ultimately have "utf8_ignore (c # s) \<noteq> c # s"
      by (metis less_irrefl)
    with nwf show ?thesis by simp
  qed
qed


lemma well_formed_ascii: "list_all (\<lambda>c. byte c < 0x80) s \<Longrightarrow> well_formed_utf8 s"
  by (induction s) simp_all

lemma utf8_ignore_replicate_a: "utf8_ignore (replicate n (CHR ''a'')) = replicate n (CHR ''a'')"
  by (rule utf8_ignore_identity_iff [THEN iffD2], rule well_formed_ascii)
     (simp add: list_all_iff byte_def)

section \<open>The capture hooks\<close>

lemma length_str_of_nat: "0 < k \<Longrightarrow> n < 10 ^ k \<Longrightarrow> length (str_of_nat n) \<le> k"
proof (induction k arbitrary: n)
  case 0
  then show ?case by simp
next
  case (Suc k)
  show ?case
  proof (cases "n < 10")
    case True
    then show ?thesis by (simp add: str_of_nat.simps [of n])
  next
    case False
    with Suc.prems have k: "0 < k" by (cases k) auto
    have "n div 10 < 10 ^ k"
      using Suc.prems by (simp add: less_mult_imp_div_less mult.commute)
    then have "length (str_of_nat (n div 10)) \<le> k"
      using Suc.IH k by simp
    with False show ?thesis by (simp add: str_of_nat.simps [of n])
  qed
qed

lemma fold_max_lower: "(a::int) \<le> fold max xs a"
  by (induction xs arbitrary: a) (auto intro: order_trans [OF max.cobounded2])

lemma fold_max_upper: "x \<in> set xs \<Longrightarrow> (x::int) \<le> fold max xs a"
proof (induction xs arbitrary: a)
  case Nil
  then show ?case by simp
next
  case (Cons y ys)
  show ?case
  proof (cases "x = y")
    case True
    have "y \<le> max y a" by simp
    also have "\<dots> \<le> fold max ys (max y a)" by (rule fold_max_lower)
    finally show ?thesis using True by simp
  next
    case False
    with Cons show ?thesis by simp
  qed
qed

lemma row_id_below_next: "r \<in> set (requests d) \<Longrightarrow> row_id r < next_id d"
  using fold_max_upper [of "row_id r" "map row_id (requests d)" "seq d"]
  by (simp add: next_id_def)

lemma find_appended: "\<forall>x\<in>set xs. \<not> P x \<Longrightarrow> P y \<Longrightarrow> find P (xs @ [y]) = Some y"
  by (induction xs) simp_all

lemma requests_insert_request:
  "requests (insert_request d ts m u h p hs b st rhs rb dur pr) =
     requests d @ [mk_row (next_id d) ts m u h p hs b st rhs rb dur pr]"
  by (simp add: insert_request_def)

lemma find_by_id_inserted:
  "find_by_id (insert_request d ts m u h p hs b st rhs rb dur pr) (next_id d) =
     Some (mk_row (next_id d) ts m u h p hs b st rhs rb dur pr)"
proof -
  have "\<forall>r\<in>set (requests d). \<not> row_id r = next_id d"
    using row_id_below_next by fastforce
  then show ?thesis
    unfolding find_by_id_def requests_insert_request
    by (rule find_appended) (simp add: mk_row_def)
qed

lemma str_of_nat_cap: "str_of_nat 1048576 = ''1048576''"
  by (simp add: str_of_nat.simps [of 1048576] str_of_nat.simps [of 104857]
      str_of_nat.simps [of 10485] str_of_nat.simps [of 1048] str_of_nat.simps [of 104]
      str_of_nat.simps [of 10] str_of_nat.simps [of "Suc 0"] digit_char_def)


lemma str_of_nat_one: "str_of_nat (Suc 0) = ''1''"
  by (simp add: str_of_nat.simps [of "Suc 0"] digit_char_def)

lemma next_id_init: "next_id init_database = 1"
  by (simp add: next_id_def init_database_def)

lemma digits_val_one: "digits_val ''1'' = 1"
  by (simp add: digits_val_def digit_val_def)

lemma digits_val_Nil: "digits_val [] = 0"
  by (simp add: digits_val_def)

lemma int_of_text_one: "int_of_text ''1'' = Some 1"
  unfolding int_of_text_def Let_def
  by (simp add: is_space_def byte_def is_digit_def digit_val_def digits_val_one digits_val_Nil)

lemmas hook_defs = proxy_server_response_def traffic_analyzer_response_def Let_def
  requests_insert_request try_store_def response_content_def

lemma readable_contents:
  "bodies_readable fl \<Longrightarrow>
     \<exists>b c. rq_content (fl_request fl) = Inr b \<and> response_content (fl_response fl) = Inr c"
  by (cases "rq_content (fl_request fl)"; cases "response_content (fl_response fl)")
     (simp_all add: bodies_readable_def)

lemma proxy_server_response_unreadable:
  "\<not> bodies_readable fl \<Longrightarrow> proxy_server_response dumps fl now1 now2 now3 d = d"
  by (cases "rq_content (fl_request fl)"; cases "response_content (fl_response fl)")
     (simp_all add: bodies_readable_def proxy_server_response_def try_store_def Let_def)

lemma traffic_analyzer_response_unreadable:
  "\<not> bodies_readable fl \<Longrightarrow> traffic_analyzer_response dumps fl now1 now2 now3 d = d"
  by (cases "rq_content (fl_request fl)"; cases "response_content (fl_response fl)")
     (simp_all add: bodies_readable_def traffic_analyzer_response_def try_store_def Let_def)

lemma proxy_server_response_readable:
  assumes "rq_content (fl_request fl) = Inr b" and "response_content (fl_response fl) = Inr c"
  shows "proxy_server_response dumps fl now1 now2 now3 d =
     insert_request d now3 (rq_method (fl_request fl)) (rq_url (fl_request fl))
       (rq_host (fl_request fl)) (rq_path (fl_request fl)) (dumps (rq_headers (fl_request fl)))
       (case b of None \<Rightarrow> [] | Some x \<Rightarrow> utf8_ignore x)
       (map_option rs_status_code (fl_response fl))
       (dumps (case fl_response fl of None \<Rightarrow> [] | Some r \<Rightarrow> rs_headers r))
       (case c of
          None \<Rightarrow> []
        | Some x \<Rightarrow> if length x < 1048576 then utf8_ignore x else too_large (length x))
       (now1 - (case start_time fl of Some t \<Rightarrow> t | None \<Rightarrow> now2))
       (rq_scheme (fl_request fl))"
  by (cases b; cases c)
     (auto simp: proxy_server_response_def Let_def assms try_store_def split: option.split)

lemma traffic_analyzer_response_readable:
  assumes "rq_content (fl_request fl) = Inr b" and "response_content (fl_response fl) = Inr c"
  shows "traffic_analyzer_response dumps fl now1 now2 now3 d =
     insert_request d now3 (rq_method (fl_request fl)) (rq_url (fl_request fl))
       (rq_host (fl_request fl)) (rq_path (fl_request fl)) (dumps (rq_headers (fl_request fl)))
       (case b of None \<Rightarrow> [] | Some x \<Rightarrow> utf8_ignore x)
       (Some (case fl_response fl of None \<Rightarrow> 0 | Some r \<Rightarrow> rs_status_code r))
       (case fl_response fl of None \<Rightarrow> ''{}'' | Some r \<Rightarrow> dumps (rs_headers r))
       (case c of None \<Rightarrow> [] | Some x \<Rightarrow> utf8_ignore x)
       (now1 - (case start_time fl of Some t \<Rightarrow> t | None \<Rightarrow> now2))
       (rq_scheme (fl_request fl))"
  by (cases b; cases c)
     (auto simp: traffic_analyzer_response_def Let_def assms try_store_def split: option.split)

lemma example_flow_readable: "bodies_readable (example_flow rq rs)"
  by (simp add: bodies_readable_def example_flow_def example_request_def response_content_def)


text \<open>
  Claim C3, as stated, fails: a request body of 1048577 bytes is stored whole by the hook of
  \<^verbatim>\<open>proxy_server.py\<close>, and a response body of that size is stored whole by
  the hook of \<^verbatim>\<open>bin/traffic_analyzer.py\<close>.
\<close>

theorem body_cap_counterexample:
  "length (body (last (requests (proxy_server_response dumps_no_headers
      (example_flow (Some (replicate 1048577 (CHR ''a''))) None) 1 1 1 init_database)))) = 1048577
   \<and> length (response_body (last (requests (traffic_analyzer_response dumps_no_headers
      (example_flow None (Some (replicate 1048577 (CHR ''a'')))) 1 1 1 init_database)))) = 1048577"
  by (simp add: hook_defs example_flow_def example_request_def mk_row_def utf8_ignore_replicate_a)

text \<open>
  Claim C3, amended. For every exchange that the hook of
  \<^verbatim>\<open>proxy_server.py\<close> persists, it stores a response
  content of fewer than 1048576 bytes as its decoded text, which is shorter than the cap, and
  any larger content as the placeholder that quotes the byte count, never as the content
  itself; so the stored response body is within the cap (for every content of fewer than
  \<open>10 ^ 100\<close> bytes, the placeholder growing with the digits of the count). The
  request body is stored as its decoded text, without a cap. The exchange is persisted
  when the request content can be read too; otherwise the table is left as it was.
\<close>

theorem proxy_server_response_body_cap:
  assumes "fl_response fl = Some r" and "rs_content r = Inr (Some c)"
  shows "(bodies_readable fl \<longrightarrow>
           (\<exists>row. requests (proxy_server_response dumps fl now1 now2 now3 d) = requests d @ [row]
              \<and> (length c < 1048576 \<longrightarrow>
                   response_body row = utf8_ignore c \<and> length (response_body row) < 1048576)
              \<and> (1048576 \<le> length c \<longrightarrow>
                   response_body row = ''[Response too large: '' @ str_of_nat (length c) @ '' bytes]'')
              \<and> (length c < 10 ^ 100 \<longrightarrow> length (response_body row) \<le> 1048576)
              \<and> body row = (case rq_content (fl_request fl) of
                               Inr (Some b) \<Rightarrow> utf8_ignore b
                             | _ \<Rightarrow> [])))
       \<and> (\<not> bodies_readable fl \<longrightarrow> proxy_server_response dumps fl now1 now2 now3 d = d)"
proof (intro conjI impI)
  assume "bodies_readable fl"
  then obtain b where b: "rq_content (fl_request fl) = Inr b"
    using readable_contents by blast
  have c: "response_content (fl_response fl) = Inr (Some c)"
    using assms by (simp add: response_content_def)
  let ?rb = "if length c < 1048576 then utf8_ignore c else too_large (length c)"
  obtain row where row:
    "requests (proxy_server_response dumps fl now1 now2 now3 d) = requests d @ [row]"
    "response_body row = ?rb"
    "body row = (case b of None \<Rightarrow> [] | Some x \<Rightarrow> utf8_ignore x)"
    unfolding proxy_server_response_readable [OF b c] requests_insert_request
    by (simp add: mk_row_def)
  have small: "response_body row = utf8_ignore c \<and> length (response_body row) < 1048576"
    if "length c < 1048576"
    using that row(2) length_utf8_ignore [of c] by auto
  have large: "response_body row = ''[Response too large: '' @ str_of_nat (length c) @ '' bytes]''"
    if "1048576 \<le> length c"
    using that row(2) by (auto simp: too_large_def)
  have bound: "length (response_body row) \<le> 1048576" if "length c < 10 ^ 100"
  proof (cases "length c < 1048576")
    case True
    from small [OF True] have "length (response_body row) < 1048576" by blast
    then show ?thesis by linarith
  next
    case False
    have "length (str_of_nat (length c)) \<le> 100"
      using that by (intro length_str_of_nat) simp_all
    then show ?thesis using False large by simp
  qed
  have "body row = (case rq_content (fl_request fl) of Inr (Some b) \<Rightarrow> utf8_ignore b | _ \<Rightarrow> [])"
    using row(3) b by (cases b) simp_all
  with row(1) small large bound
  show "\<exists>row. requests (proxy_server_response dumps fl now1 now2 now3 d) = requests d @ [row]
          \<and> (length c < 1048576 \<longrightarrow>
               response_body row = utf8_ignore c \<and> length (response_body row) < 1048576)
          \<and> (1048576 \<le> length c \<longrightarrow>
               response_body row = ''[Response too large: '' @ str_of_nat (length c) @ '' bytes]'')
          \<and> (length c < 10 ^ 100 \<longrightarrow> length (response_body row) \<le> 1048576)
          \<and> body row = (case rq_content (fl_request fl) of
                           Inr (Some b) \<Rightarrow> utf8_ignore b
                         | _ \<Rightarrow> [])"
    by blast
next
  assume "\<not> bodies_readable fl"
  then show "proxy_server_response dumps fl now1 now2 now3 d = d"
    by (rule proxy_server_response_unreadable)
qed

text \<open>
  Claim C3, witness: a response of exactly 1048576 bytes is stored as the placeholder.
\<close>

theorem proxy_server_response_body_cap_witness:
  "\<exists>row. requests (proxy_server_response dumps_no_headers
             (example_flow None (Some (replicate 1048576 (CHR ''a'')))) 1 1 1 init_database) = [row]
         \<and> response_body row = ''[Response too large: 1048576 bytes]''"
proof -
  let ?fl = "example_flow None (Some (replicate 1048576 (CHR ''a'')))"
  have r: "fl_response ?fl = Some \<lparr>rs_status_code = 200, rs_headers = [],
                                    rs_content = Inr (Some (replicate 1048576 (CHR ''a'')))\<rparr>"
    by (simp add: example_flow_def)
  from proxy_server_response_body_cap [OF r, of "replicate 1048576 (CHR ''a'')"
      dumps_no_headers 1 1 1 init_database]
  show ?thesis
    by (auto simp: init_database_def str_of_nat_cap example_flow_readable)
qed

text \<open>
  Claim C4, as stated, fails: the request body \<^verbatim>\<open>b'\xffA'\<close> is stored, and
  returned by \<open>get_request_detail\<close>, as the text \<open>A\<close>. The byte that is not
  UTF-8 is dropped silently: it is neither replaced nor is the body marked as base64.
\<close>

theorem round_trip_counterexample:
  "get_request_detail
     (proxy_server_response dumps_no_headers (example_flow (Some [CHR 0xFF, CHR ''A'']) None)
        1 1 1 init_database) ''1''
   = Reply 200 (row_dict (mk_row 1 1 ''POST'' ''https://example.com/upload'' ''example.com''
       ''/upload'' ''{}'' ''A'' (Some 200) ''{}'' [] 0 ''https''))"
proof -
  let ?fl = "example_flow (Some [CHR 0xFF, CHR ''A'']) None"
  have b: "rq_content (fl_request ?fl) = Inr (Some [CHR 0xFF, CHR ''A''])"
    and c: "response_content (fl_response ?fl) = Inr None"
    by (simp_all add: example_flow_def example_request_def response_content_def)
  show ?thesis
    unfolding get_request_detail_def select_by_text_id_def int_of_text_one
      proxy_server_response_readable [OF b c] option.case
    by (simp add: find_by_id_inserted [of init_database, unfolded next_id_init] example_flow_def
        example_request_def dumps_no_headers_def utf8_next_def byte_def tail_byte_def)
qed

text \<open>
  Claim C4, amended. After the hook of \<^verbatim>\<open>proxy_server.py\<close> has inserted an
  exchange, which it does whenever both contents can be read,
  \<open>get_request_detail\<close> with the new id returns exactly the stored row:
  the method, URL, host, path, scheme and status as received, both header columns as
  the serialiser wrote them, the request body as its decoded text, the response body as its
  decoded text below the cap and as the placeholder from the cap on. The request body comes
  back equal to the bytes received exactly when they are well-formed UTF-8; other bytes are
  dropped in decoding, without a replacement character and without a base64 marker.
\<close>

theorem get_request_detail_after_capture:
  assumes "int_of_text rid = Some (next_id d)"
  shows "(bodies_readable fl \<longrightarrow>
          (\<exists>row. get_request_detail (proxy_server_response dumps fl now1 now2 now3 d) rid
               = Reply 200 (row_dict row)
           \<and> requests (proxy_server_response dumps fl now1 now2 now3 d) = requests d @ [row]
           \<and> row_id row = next_id d
           \<and> method_col row = rq_method (fl_request fl)
           \<and> url row = rq_url (fl_request fl)
           \<and> host row = rq_host (fl_request fl)
           \<and> path row = rq_path (fl_request fl)
           \<and> protocol row = rq_scheme (fl_request fl)
           \<and> headers row = dumps (rq_headers (fl_request fl))
           \<and> response_headers row
               = dumps (case fl_response fl of None \<Rightarrow> [] | Some r \<Rightarrow> rs_headers r)
           \<and> response_status row = map_option rs_status_code (fl_response fl)
           \<and> body row = (case rq_content (fl_request fl) of
                            Inr (Some c) \<Rightarrow> utf8_ignore c
                          | _ \<Rightarrow> [])
           \<and> response_body row
               = (case response_content (fl_response fl) of
                    Inr (Some c) \<Rightarrow>
                      if length c < 1048576 then utf8_ignore c else too_large (length c)
                  | _ \<Rightarrow> [])
           \<and> (case rq_content (fl_request fl) of
                 Inr (Some c) \<Rightarrow> (body row = c) = well_formed_utf8 c
               | _ \<Rightarrow> True)))
       \<and> (\<not> bodies_readable fl \<longrightarrow> proxy_server_response dumps fl now1 now2 now3 d = d)"
proof (intro conjI impI)
  assume "bodies_readable fl"
  then obtain b c where b: "rq_content (fl_request fl) = Inr b"
    and c: "response_content (fl_response fl) = Inr c"
    using readable_contents by blast
  show "\<exists>row. get_request_detail (proxy_server_response dumps fl now1 now2 now3 d) rid
               = Reply 200 (row_dict row)
           \<and> requests (proxy_server_response dumps fl now1 now2 now3 d) = requests d @ [row]
           \<and> row_id row = next_id d
           \<and> method_col row = rq_method (fl_request fl)
           \<and> url row = rq_url (fl_request fl)
           \<and> host row = rq_host (fl_request fl)
           \<and> path row = rq_path (fl_request fl)
           \<and> protocol row = rq_scheme (fl_request fl)
           \<and> headers row = dumps (rq_headers (fl_request fl))
           \<and> response_headers row
               = dumps (case fl_response fl of None \<Rightarrow> [] | Some r \<Rightarrow> rs_headers r)
           \<and> response_status row = map_option rs_status_code (fl_response fl)
           \<and> body row = (case rq_content (fl_request fl) of
                            Inr (Some c) \<Rightarrow> utf8_ignore c
                          | _ \<Rightarrow> [])
           \<and> response_body row
               = (case response_content (fl_response fl) of
                    Inr (Some c) \<Rightarrow>
                      if length c < 1048576 then utf8_ignore c else too_large (length c)
                  | _ \<Rightarrow> [])
           \<and> (case rq_content (fl_request fl) of
                 Inr (Some c) \<Rightarrow> (body row = c) = well_formed_utf8 c
               | _ \<Rightarrow> True)"
    unfolding get_request_detail_def select_by_text_id_def assms
      proxy_server_response_readable [OF b c] option.case find_by_id_inserted requests_insert_request
    by (cases b; cases c) (simp_all add: b c mk_row_def utf8_ignore_identity_iff)
next
  assume "\<not> bodies_readable fl"
  then show "proxy_server_response dumps fl now1 now2 now3 d = d"
    by (rule proxy_server_response_unreadable)
qed

text \<open>
  Claim C4, witness: the first exchange of an empty table, with an ASCII body.
\<close>

theorem get_request_detail_after_capture_witness:
  "\<exists>row. get_request_detail
            (proxy_server_response dumps_no_headers (example_flow (Some ''a=1'') None)
               1 1 1 init_database) ''1''
          = Reply 200 (row_dict row)
        \<and> body row = ''a=1'' \<and> response_status row = Some 200"
proof -
  have id: "int_of_text ''1'' = Some (next_id init_database)"
    by (simp add: int_of_text_one next_id_init)
  have wf: "well_formed_utf8 ''a=1''"
    by (simp add: byte_def)
  from get_request_detail_after_capture [OF id, of "example_flow (Some ''a=1'') None"
      dumps_no_headers 1 1 1]
  show ?thesis
    using wf by (auto simp: example_flow_readable) (auto simp: example_flow_def example_request_def)
qed




text \<open>
  Claim C7, as stated, fails: a request that started at time 100 and whose response hook
  runs at time 105 is stored with timestamp 105.
\<close>

theorem timestamp_counterexample:
  "start_time (request_hook 100 (example_flow None None)) = Some 100
   \<and> timestamp (last (requests (proxy_server_response dumps_no_headers
        (request_hook 100 (example_flow None None)) 105 105 105 init_database))) = 105"
  by (simp add: hook_defs request_hook_def example_flow_def example_request_def mk_row_def)

text \<open>
  Claim C7, amended. In both capture paths every persisted exchange (one whose contents
  can be read) has as its stored timestamp the clock reading taken
  when the response hook builds its INSERT; the start time recorded by the request hook
  enters the row through the duration only, which is the first reading of the response hook
  minus the start time.
\<close>

theorem stored_timestamp_is_insert_time:
  "(bodies_readable fl \<longrightarrow>
      (\<exists>row. requests (proxy_server_response dumps fl now1 now2 now3 d) = requests d @ [row]
         \<and> timestamp row = now3
         \<and> duration row = now1 - (case start_time fl of Some t \<Rightarrow> t | None \<Rightarrow> now2))
    \<and> (\<exists>row. requests (traffic_analyzer_response dumps fl now1 now2 now3 d) = requests d @ [row]
         \<and> timestamp row = now3
         \<and> duration row = now1 - (case start_time fl of Some t \<Rightarrow> t | None \<Rightarrow> now2)))
   \<and> (\<not> bodies_readable fl \<longrightarrow>
        proxy_server_response dumps fl now1 now2 now3 d = d
      \<and> traffic_analyzer_response dumps fl now1 now2 now3 d = d)"
proof (intro conjI impI)
  assume "bodies_readable fl"
  then obtain b c where b: "rq_content (fl_request fl) = Inr b"
    and c: "response_content (fl_response fl) = Inr c"
    using readable_contents by blast
  show "\<exists>row. requests (proxy_server_response dumps fl now1 now2 now3 d) = requests d @ [row]
          \<and> timestamp row = now3
          \<and> duration row = now1 - (case start_time fl of Some t \<Rightarrow> t | None \<Rightarrow> now2)"
    unfolding proxy_server_response_readable [OF b c] requests_insert_request
    by (simp add: mk_row_def)
  show "\<exists>row. requests (traffic_analyzer_response dumps fl now1 now2 now3 d) = requests d @ [row]
          \<and> timestamp row = now3
          \<and> duration row = now1 - (case start_time fl of Some t \<Rightarrow> t | None \<Rightarrow> now2)"
    unfolding traffic_analyzer_response_readable [OF b c] requests_insert_request
    by (simp add: mk_row_def)
next
  assume u: "\<not> bodies_readable fl"
  show "proxy_server_response dumps fl now1 now2 now3 d = d"
    using u by (rule proxy_server_response_unreadable)
  show "traffic_analyzer_response dumps fl now1 now2 now3 d = d"
    using u by (rule traffic_analyzer_response_unreadable)
qed

text \<open>
  Claim C7, witness: start at 100, response hook at 105, insert at 106.
\<close>

theorem stored_timestamp_is_insert_time_witness:
  "bodies_readable (request_hook 100 (example_flow None None))
   \<and> (\<exists>row. requests (proxy_server_response dumps_no_headers
             (request_hook 100 (example_flow None None)) 105 105 106 init_database) = [row]
        \<and> timestamp row = 106 \<and> duration row = 5)"
proof -
  have r: "bodies_readable (request_hook 100 (example_flow None None))"
    using example_flow_readable [of None None]
    by (simp add: bodies_readable_def request_hook_def)
  from stored_timestamp_is_insert_time [of "request_hook 100 (example_flow None None)"
      dumps_no_headers 105 105 106 init_database] r
  show ?thesis
    by (auto simp: init_database_def request_hook_def)
qed

section \<open>Export and replay\<close>

lemma build_entries_length:
  "build_entries mk rows acc = Inr es \<Longrightarrow> length es = length acc + length rows"
proof (induction rows arbitrary: acc)
  case Nil
  then show ?case by simp
next
  case (Cons r rows)
  from Cons.prems obtain entry where e: "mk r = Inr entry"
    and rest: "build_entries mk rows (acc @ [entry]) = Inr es"
    by (auto split: sum.splits)
  from Cons.IH [OF rest] show ?case by simp
qed

lemma build_entries_returns:
  "list_all (\<lambda>r. \<exists>e. mk r = Inr e) rows \<Longrightarrow> \<exists>es. build_entries mk rows acc = Inr es"
  by (induction rows arbitrary: acc) auto

lemma is_object_items: "is_object r \<Longrightarrow> \<exists>kvs. and_then r py_items = Inr kvs"
  by (auto simp: is_object_def py_items_def split: sum.splits json.splits)

lemma api_entry_returns: "has_header_objects r \<Longrightarrow> \<exists>e. api_entry r = Inr e"
  unfolding has_header_objects_def api_entry_def
  by (auto dest!: is_object_items)

lemma cli_entry_returns:
  "has_header_objects r \<Longrightarrow> \<not> isl (fromtimestamp (timestamp r)) \<Longrightarrow> \<exists>e. cli_entry r = Inr e"
  unfolding has_header_objects_def cli_entry_def
  by (cases "fromtimestamp (timestamp r)") (auto dest!: is_object_items)

lemma log_entries_har_document: "log_entries (har_document v es) = es"
  by (simp add: log_entries_def har_document_def)

lemma length_limit_rows:
  "length (limit_rows n rs) = (if n < 0 then length rs else min (nat n) (length rs))"
  by (simp add: limit_rows_def min.commute)

lemma set_limit_rows: "set (limit_rows n rs) \<subseteq> set rs"
  by (auto simp: limit_rows_def dest: in_set_takeD)

text \<open>
  Claim C8. Whenever a HAR export produces a document, its \<open>log.entries\<close> has one
  entry per selected exchange: every row of the table for the export of the API, and for the
  export of the command line the rows that pass the host filter, cut to the limit when the
  limit is not negative. A document is produced whenever the header columns of every row
  hold JSON objects; the export of the command line needs, in addition, a limit that fits
  in 64 bits and timestamps that are dates of the years 1 to 9999.
\<close>

theorem har_export_entry_count:
  "(export_har d = Reply 200 har \<longrightarrow> length (log_entries har) = length (requests d))
   \<and> (cli_export_har only_zybooks d limit = Inr har' \<longrightarrow>
        length (log_entries har')
          = (if limit < 0 then count_requests only_zybooks d
             else min (nat limit) (count_requests only_zybooks d)))
   \<and> (list_all has_header_objects (requests d) \<longrightarrow>
        (\<exists>h. export_har d = Reply 200 h)
      \<and> (\<not> isl (sqlite_integer limit)
            \<and> list_all (\<lambda>r. \<not> isl (fromtimestamp (timestamp r))) (requests d)
          \<longrightarrow> (\<exists>h. cli_export_har only_zybooks d limit = Inr h)))"
proof (intro conjI impI)
  assume "export_har d = Reply 200 har"
  then obtain es where es: "build_entries api_entry (order_by_timestamp (requests d)) [] = Inr es"
    and har: "har = har_document ''1.0'' es"
    by (auto simp: export_har_def split: sum.splits)
  from build_entries_length [OF es] show "length (log_entries har) = length (requests d)"
    by (simp add: har log_entries_har_document order_by_timestamp_def)
next
  let ?rows = "limit_rows limit
                 (order_by_timestamp_desc d (filter (host_clause_and_params only_zybooks) (requests d)))"
  assume a: "cli_export_har only_zybooks d limit = Inr har'"
  then have b: "sqlite_integer limit = Inr limit"
    by (auto simp: cli_export_har_def sqlite_integer_def split: if_splits)
  from a obtain es where es: "build_entries cli_entry ?rows [] = Inr es"
    and har: "har' = har_document ''2.0'' es"
    unfolding cli_export_har_def b and_then_Inr_simp Let_def
    by (auto split: sum.splits)
  from build_entries_length [OF es]
  show "length (log_entries har')
          = (if limit < 0 then count_requests only_zybooks d
             else min (nat limit) (count_requests only_zybooks d))"
    by (simp add: har log_entries_har_document length_limit_rows order_by_timestamp_desc_def
        count_requests_def)
next
  assume ok: "list_all has_header_objects (requests d)"
  then have "list_all (\<lambda>r. \<exists>e. api_entry r = Inr e) (order_by_timestamp (requests d))"
    by (auto simp: list_all_iff order_by_timestamp_def intro: api_entry_returns)
  from build_entries_returns [OF this, of "[]"]
  show "\<exists>h. export_har d = Reply 200 h"
    by (auto simp: export_har_def)
next
  let ?rows = "limit_rows limit
                 (order_by_timestamp_desc d (filter (host_clause_and_params only_zybooks) (requests d)))"
  assume ok: "list_all has_header_objects (requests d)"
  assume "\<not> isl (sqlite_integer limit)
            \<and> list_all (\<lambda>r. \<not> isl (fromtimestamp (timestamp r))) (requests d)"
  then have b: "sqlite_integer limit = Inr limit"
    and ts: "list_all (\<lambda>r. \<not> isl (fromtimestamp (timestamp r))) (requests d)"
    by (auto simp: sqlite_integer_def split: if_splits)
  have "set ?rows \<subseteq> set (requests d)"
    using set_limit_rows [of limit "order_by_timestamp_desc d (filter (host_clause_and_params only_zybooks) (requests d))"]
    by (auto simp: order_by_timestamp_desc_def)
  with ok ts have "list_all (\<lambda>r. \<exists>e. cli_entry r = Inr e) ?rows"
    by (auto simp: list_all_iff intro: cli_entry_returns)
  from build_entries_returns [OF this, of "[]"]
  show "\<exists>h. cli_export_har only_zybooks d limit = Inr h"
    unfolding cli_export_har_def b and_then_Inr_simp Let_def
    by auto
qed

text \<open>
  Claim C8, witness: a table of two exchanges exports two entries, and one entry under
  limit 1.
\<close>

theorem har_export_entry_count_witness:
  "list_all has_header_objects (requests two_db)
   \<and> \<not> isl (sqlite_integer 1)
   \<and> list_all (\<lambda>r. \<not> isl (fromtimestamp (timestamp r))) (requests two_db)
   \<and> (\<exists>h. export_har two_db = Reply 200 h \<and> length (log_entries h) = 2)
   \<and> (\<exists>h. cli_export_har False two_db 1 = Inr h \<and> length (log_entries h) = 1)"
proof -
  have ok: "list_all has_header_objects (requests two_db)"
    by (simp add: two_db_def mk_row_def has_header_objects_def loads_empty_object is_object_def)
  have b: "\<not> isl (sqlite_integer 1)"
    by (simp add: sqlite_integer_def)
  have ts: "list_all (\<lambda>r. \<not> isl (fromtimestamp (timestamp r))) (requests two_db)"
    by (simp add: two_db_def mk_row_def fromtimestamp_def)
  have n: "length (requests two_db) = 2" "count_requests False two_db = 2"
    by (simp_all add: two_db_def count_requests_def host_clause_and_params_def like_contains_def)
  from har_export_entry_count [of two_db _ False 1] ok b ts
  obtain h h' where h: "export_har two_db = Reply 200 h" "cli_export_har False two_db 1 = Inr h'"
    by blast
  from har_export_entry_count [of two_db h False 1 h'] h n
  have "length (log_entries h) = 2" "length (log_entries h') = 1"
    by simp_all
  with ok b ts h show ?thesis by blast
qed

text \<open>
  Claim C9. \<open>replay_request\<close> and \<open>modify_and_replay\<close> of the API and
  \<open>replay_request\<close> of the proxy manager leave the table as it was: every row and
  every field, for every table, id and request body, whether the row is found or not.
\<close>

theorem replay_leaves_table_unchanged:
  "snd (replay_request rid d) = d
   \<and> snd (modify_and_replay rid request_text d) = d
   \<and> snd (proxy_manager_replay_request rid_text d) = d"
  by (simp add: replay_request_def modify_and_replay_def proxy_manager_replay_request_def
      execute_select_by_id_def execute_select_by_text_id_def
      split: option.split sum.split)

text \<open>
  Claim C9, witness: replaying the exchange of the login scenario answers with the stored
  request and returns the same table.
\<close>

theorem replay_leaves_table_unchanged_witness:
  "replay_request 1 login_db =
     (Reply 200
        (JObj [(''success'', JBool True),
               (''message'', JStr ''Request 1 replayed''),
               (''request'',
                JObj [(''method'', JStr ''GET''),
                      (''url'', JStr ''http://example.com/login?password=123''),
                      (''headers'', JObj []),
                      (''body'', JStr [])])]),
      login_db)"
proof -
  have "fst (replay_request 1 login_db) =
     Reply 200
        (JObj [(''success'', JBool True),
               (''message'', JStr ''Request 1 replayed''),
               (''request'',
                JObj [(''method'', JStr ''GET''),
                      (''url'', JStr ''http://example.com/login?password=123''),
                      (''headers'', JObj []),
                      (''body'', JStr [])])])"
    by (simp add: replay_request_def execute_select_by_id_def select_by_id_def find_by_id_def
        sqlite_integer_def login_db_def
        mk_row_def loads_empty_object str_of_int_def str_of_nat_one)
  moreover have "snd (replay_request 1 login_db) = login_db"
    using replay_leaves_table_unchanged [of 1 login_db] by simp
  ultimately show ?thesis
    by (metis prod.collapse)
qed

text \<open>
  In contrast, the two handlers that are meant to write do change the table.
\<close>

lemma analyze_handler_marks_row:
  "map analyzed (requests (snd (proxy_manager_analyze_request ''1'' login_db))) = [True]
   \<and> map analyzed (requests login_db) = [False]"
  by (simp add: proxy_manager_analyze_request_def execute_select_by_text_id_def
      select_by_text_id_def int_of_text_one find_by_id_def login_db_def mk_row_def
      loads_empty_object py_keys_def execute_mark_analyzed_def)

lemma clear_traffic_empties_table: "requests (snd (clear_traffic d)) = []"
  by (simp add: clear_traffic_def execute_delete_all_def)

section \<open>Behaviour at the edges\<close>

text \<open>
  Closed instances of the definitions at their edges: the order of equal timestamps with
  and without the index, case mappings into ASCII, the spellings of an id, timestamps that
  are no dates, and an id beyond 64 bits.
\<close>

lemma scanned_ids_equal_timestamps:
  "scanned_ids (tie_db True) = [2, 1] \<and> scanned_ids (tie_db False) = [1, 2]"
  by (simp add: scanned_ids_def tie_db_def mk_row_def limit_rows_def order_by_timestamp_desc_def)

lemma case_mapping_into_ascii:
  "lower [CHR 0xE2, CHR 0x84, CHR 0xAA] = ''k'' \<and> upper [CHR 0xC5, CHR 0xBF] = ''S''
   \<and> upper [CHR 0xC4, CHR 0xB1] = ''I'' \<and> lower ''Host'' = ''host''"
  by (simp add: lower_def upper_def lower_special_def upper_special_def lower_char_def
      upper_char_def)

lemma int_of_text_spellings:
  "int_of_text ''1.0'' = Some 1 \<and> int_of_text ''1e0'' = Some 1 \<and> int_of_text '' 1'' = Some 1
   \<and> int_of_text ''10e-1'' = Some 1 \<and> int_of_text ''1.5'' = None \<and> int_of_text ''1e'' = None
   \<and> int_of_text ''0x1'' = None \<and> int_of_text [] = None"
  unfolding int_of_text_def Let_def
  by (simp add: is_space_def byte_def is_digit_def digit_val_def digits_val_def)

lemma fromtimestamp_out_of_range:
  "fromtimestamp (10 ^ 18) = Inl OSError \<and> fromtimestamp 253402300800 = Inl ValueError
   \<and> fromtimestamp (10 ^ 19) = Inl OverflowError \<and> fromtimestamp 1700000000 = Inr 1700000000"
  by (simp add: fromtimestamp_def)

lemma select_by_id_out_of_range:
  "select_by_id d (2 ^ 63) = Inl OverflowError \<and> analyze_request d (2 ^ 63) = Inl OverflowError
   \<and> fst (replay_request (2 ^ 63) d) = ErrorReply 500 OverflowError"
  by (simp add: select_by_id_def sqlite_integer_def analyze_request_def replay_request_def
      execute_select_by_id_def)

end
